theory Spec2Isabelle
  imports Complex_Main
begin

section \<open>Tokens and lexer state (lexer.c, lines 26-87)\<close>

text \<open>
  The front end of the Topo language: \<^verbatim>\<open>lexer.c\<close> turns a NUL-terminated byte string
  into tokens, \<^verbatim>\<open>parser.c\<close> builds the syntax tree of \<^verbatim>\<open>ast.h\<close>.

  Modelling decisions.
  \<^item> The source buffer is a \<open>string\<close>; reading at or beyond its end gives the
    terminating NUL byte, and a NUL inside the list ends the input exactly as it ends a
    C string (the cursor never moves past it).
  \<^item> \<open>char*\<close> payloads are values: \<open>None\<close> is the null pointer, \<open>Some s\<close> a
    NUL-free C string. \<^verbatim>\<open>strdup\<close> copies up to the first NUL. Allocation never fails.
    The model of the lexer leaves \<^verbatim>\<open>free\<close> out. The parser reads token texts that
    \<open>lexer_skip\<close> has freed: there such a read ends the run (see the parser state).
  \<^item> \<open>int\<close> counters (position, line, column) are natural numbers: overflow needs a
    source of more than \<open>2^31\<close> bytes and is left out. \<open>long\<close> is 64 bits wide.
  \<^item> Writing to \<^verbatim>\<open>stderr\<close> is not modelled; the diagnostic kept in \<open>error_msg\<close> is.
\<close>

datatype TokenType =
    TOKEN_VAR | TOKEN_CONST | TOKEN_FUNC | TOKEN_IF | TOKEN_ELSE | TOKEN_ELIF
  | TOKEN_WHILE | TOKEN_FOR | TOKEN_IN | TOKEN_RETURN | TOKEN_TRUE | TOKEN_FALSE
  | TOKEN_NULL | TOKEN_AND | TOKEN_OR | TOKEN_NOT | TOKEN_BREAK | TOKEN_CONTINUE
  | TOKEN_CONSOLE | TOKEN_INPUT | TOKEN_LEN | TOKEN_APPEND | TOKEN_POP
  | TOKEN_KEYS | TOKEN_VALUES | TOKEN_TYPE | TOKEN_INT | TOKEN_FLOAT_FUNC
  | TOKEN_STR | TOKEN_BOOL | TOKEN_ARRAY | TOKEN_DICT | TOKEN_RANGE
  | TOKEN_FROM | TOKEN_USING
  | TOKEN_IDENTIFIER | TOKEN_NUMBER_INT | TOKEN_NUMBER_FLOAT | TOKEN_STRING
  | TOKEN_OPERATOR | TOKEN_PUNCTUATION | TOKEN_NEWLINE | TOKEN_EOF | TOKEN_ERROR

record Token =
  tok_type :: TokenType
  tok_value :: "string option"
  int_val :: int
  float_val :: real
  tok_line :: nat
  tok_column :: nat
  tok_length :: int

record Lexer =
  source :: string
  position :: nat
  line :: nat
  column :: nat
  start_position :: nat
  start_line :: nat
  start_column :: nat
  current :: Token
  lookahead :: "Token \<times> Token"
  lookahead_pos :: nat
  has_error :: bool
  error_msg :: string
  string_buffer :: string

text \<open>
  \<open>string_buffer\<close> holds the live prefix of the C array, so \<open>string_buffer_pos\<close> is
  its length. \<open>lookahead\<close> is the array of \<open>MAX_LOOKAHEAD = 2\<close> tokens.
\<close>

abbreviation NUL :: char where "NUL \<equiv> CHR 0x00"
abbreviation NEWLINE :: char where "NEWLINE \<equiv> CHR 0x0A"
abbreviation TAB :: char where "TAB \<equiv> CHR 0x09"
abbreviation CR :: char where "CR \<equiv> CHR 0x0D"
abbreviation BACKSLASH :: char where "BACKSLASH \<equiv> CHR 0x5C"
abbreviation DQUOTE :: char where "DQUOTE \<equiv> CHR 0x22"
abbreviation SQUOTE :: char where "SQUOTE \<equiv> CHR 0x27"

definition MAX_STRING_LENGTH :: nat where "MAX_STRING_LENGTH = 4096"
definition MAX_IDENTIFIER_LENGTH :: nat where "MAX_IDENTIFIER_LENGTH = 128"
definition MAX_LOOKAHEAD :: nat where "MAX_LOOKAHEAD = 2"

definition keyword_table :: "(string \<times> TokenType) list" where
  "keyword_table =
    [(''var'', TOKEN_VAR), (''const'', TOKEN_CONST), (''func'', TOKEN_FUNC),
     (''if'', TOKEN_IF), (''else'', TOKEN_ELSE), (''elif'', TOKEN_ELIF),
     (''while'', TOKEN_WHILE), (''for'', TOKEN_FOR), (''in'', TOKEN_IN),
     (''return'', TOKEN_RETURN), (''break'', TOKEN_BREAK), (''continue'', TOKEN_CONTINUE),
     (''true'', TOKEN_TRUE), (''false'', TOKEN_FALSE), (''null'', TOKEN_NULL),
     (''and'', TOKEN_AND), (''or'', TOKEN_OR), (''not'', TOKEN_NOT),
     (''console'', TOKEN_CONSOLE), (''input'', TOKEN_INPUT), (''len'', TOKEN_LEN),
     (''append'', TOKEN_APPEND), (''pop'', TOKEN_POP), (''keys'', TOKEN_KEYS),
     (''values'', TOKEN_VALUES), (''type'', TOKEN_TYPE), (''int'', TOKEN_INT),
     (''float'', TOKEN_FLOAT_FUNC), (''str'', TOKEN_STR), (''bool'', TOKEN_BOOL),
     (''array'', TOKEN_ARRAY), (''dict'', TOKEN_DICT), (''range'', TOKEN_RANGE),
     (''from'', TOKEN_FROM), (''using'', TOKEN_USING)]"

text \<open>Each entry is the operator's text and its \<open>length\<close> field; all have type \<open>TOKEN_OPERATOR\<close>.\<close>

definition operator_table :: "(string \<times> nat) list" where
  "operator_table =
    [(''=='', 2), (''!='', 2), (''<='', 2), (''>='', 2), (''&&'', 2), (''||'', 2),
     (''+='', 2), (''-='', 2), (''*='', 2), (''/='', 2), (''%='', 2),
     (''+'', 1), (''-'', 1), (''*'', 1), (''/'', 1), (''%'', 1), (''='', 1),
     (''<'', 1), (''>'', 1), (''!'', 1), (''&'', 1), (''|'', 1), (''^'', 1), (''~'', 1)]"

definition punctuation_chars :: string where
  "punctuation_chars = ''(){}[].,;:''"

section \<open>The C library functions the lexer calls\<close>

text \<open>
  \<^verbatim>\<open><ctype.h>\<close> on bytes, as in the C locale (bytes from \<open>0x80\<close> on are in no class;
  the lexer handles them itself).
\<close>

definition isdigit_c :: "char \<Rightarrow> bool" where
  "isdigit_c c = (let n = (of_char c :: nat) in 48 \<le> n \<and> n \<le> 57)"

definition isalpha_c :: "char \<Rightarrow> bool" where
  "isalpha_c c = (let n = (of_char c :: nat) in (65 \<le> n \<and> n \<le> 90) \<or> (97 \<le> n \<and> n \<le> 122))"

definition isalnum_c :: "char \<Rightarrow> bool" where
  "isalnum_c c = (isalpha_c c \<or> isdigit_c c)"

definition isxdigit_c :: "char \<Rightarrow> bool" where
  "isxdigit_c c = (let n = (of_char c :: nat) in
     (48 \<le> n \<and> n \<le> 57) \<or> (65 \<le> n \<and> n \<le> 70) \<or> (97 \<le> n \<and> n \<le> 102))"

definition isspace_c :: "char \<Rightarrow> bool" where
  "isspace_c c = (let n = (of_char c :: nat) in n = 32 \<or> (9 \<le> n \<and> n \<le> 13))"

text \<open>The C string held in a buffer: the bytes before the first NUL (what \<^verbatim>\<open>strdup\<close> copies).\<close>

definition c_str :: "string \<Rightarrow> string" where
  "c_str s = takeWhile (\<lambda>c. c \<noteq> NUL) s"

text \<open>The value of a digit in a base up to 16, if the byte is one.\<close>

definition digit_value :: "nat \<Rightarrow> char \<Rightarrow> nat option" where
  "digit_value base c =
    (let n = (of_char c :: nat);
         v = (if 48 \<le> n \<and> n \<le> 57 then n - 48
              else if 97 \<le> n \<and> n \<le> 102 then n - 87
              else if 65 \<le> n \<and> n \<le> 70 then n - 55
              else 16)
     in if v < base then Some v else None)"

text \<open>The longest prefix of digits of the base, and its value, most significant digit first.\<close>

fun digits_prefix :: "nat \<Rightarrow> string \<Rightarrow> nat list" where
  "digits_prefix base [] = []"
| "digits_prefix base (c # cs) =
    (case digit_value base c of None \<Rightarrow> [] | Some v \<Rightarrow> v # digits_prefix base cs)"

definition digits_to_nat :: "nat \<Rightarrow> nat list \<Rightarrow> nat" where
  "digits_to_nat base ds = foldl (\<lambda>acc d. acc * base + d) 0 ds"

definition LONG_MAX :: int where "LONG_MAX = 9223372036854775807"
definition LONG_MIN :: int where "LONG_MIN = - 9223372036854775808"

text \<open>
  \<^verbatim>\<open>strtol(s, NULL, base)\<close> for base 2 and 16 (C11 7.22.1.4): leading white space, an
  optional sign, for base 16 an optional \<^verbatim>\<open>0x\<close> prefix when a hexadecimal digit
  follows it, then the digits; no digits gives 0; a value out of range is clamped.
\<close>

definition strip_hex_prefix :: "nat \<Rightarrow> string \<Rightarrow> string" where
  "strip_hex_prefix base s =
    (case s of
       c0 # c1 # c2 # rest \<Rightarrow>
         (if base = 16 \<and> c0 = CHR ''0'' \<and> (c1 = CHR ''x'' \<or> c1 = CHR ''X'') \<and> isxdigit_c c2
          then c2 # rest else s)
     | _ \<Rightarrow> s)"

definition strtol :: "string \<Rightarrow> nat \<Rightarrow> int" where
  "strtol s base =
    (let s1 = dropWhile isspace_c s;
         neg = (case s1 of c # _ \<Rightarrow> c = CHR ''-'' | [] \<Rightarrow> False);
         s2 = (case s1 of c # cs \<Rightarrow> (if c = CHR ''-'' \<or> c = CHR ''+'' then cs else s1) | [] \<Rightarrow> s1);
         s3 = strip_hex_prefix base s2;
         v = int (digits_to_nat base (digits_prefix base s3))
     in if neg then max LONG_MIN (- v) else min LONG_MAX v)"

text \<open>\<^verbatim>\<open>atol(s)\<close> is \<^verbatim>\<open>strtol(s, NULL, 10)\<close> (out of range is undefined in C; clamped here as in glibc).\<close>

definition atol :: "string \<Rightarrow> int" where
  "atol s = strtol s 10"

text \<open>
  \<^verbatim>\<open>atof(s)\<close> on decimal text: an optional sign, digits with an optional fraction, and an
  exponent when digits follow its marker. The result is the exact decimal value: the
  rounding to \<open>double\<close> (a relative error of at most \<open>2^-53\<close>) is not modelled.
\<close>

definition atof_exponent :: "string \<Rightarrow> int" where
  "atof_exponent s =
    (case s of
       e # rest \<Rightarrow>
         (if e = CHR ''e'' \<or> e = CHR ''E'' then
            (let neg = (case rest of c # _ \<Rightarrow> c = CHR ''-'' | [] \<Rightarrow> False);
                 ds = (case rest of
                         c # cs \<Rightarrow> (if c = CHR ''-'' \<or> c = CHR ''+'' then cs else rest)
                       | [] \<Rightarrow> rest);
                 v = int (digits_to_nat 10 (digits_prefix 10 ds))
             in if neg then - v else v)
          else 0)
     | [] \<Rightarrow> 0)"

definition atof :: "string \<Rightarrow> real" where
  "atof s =
    (let s1 = dropWhile isspace_c s;
         neg = (case s1 of c # _ \<Rightarrow> c = CHR ''-'' | [] \<Rightarrow> False);
         s2 = (case s1 of c # cs \<Rightarrow> (if c = CHR ''-'' \<or> c = CHR ''+'' then cs else s1) | [] \<Rightarrow> s1);
         ip = digits_prefix 10 s2;
         s3 = drop (length ip) s2;
         fp = (case s3 of c # cs \<Rightarrow> (if c = CHR ''.'' then digits_prefix 10 cs else []) | [] \<Rightarrow> []);
         s4 = (case s3 of c # cs \<Rightarrow> (if c = CHR ''.'' then drop (length fp) cs else s3) | [] \<Rightarrow> s3);
         ex = (if ip = [] \<and> fp = [] then 0 else atof_exponent s4);
         m = real (digits_to_nat 10 (ip @ fp)) / 10 ^ length fp;
         v = (if 0 \<le> ex then m * 10 ^ nat ex else m / 10 ^ nat (- ex))
     in if neg then - v else v)"

text \<open>Two lower-case hexadecimal digits, as \<^verbatim>\<open>%02x\<close> prints a byte.\<close>

definition hex_digit :: "nat \<Rightarrow> char" where
  "hex_digit n = (if n < 10 then char_of (48 + n) else char_of (87 + n))"

definition hex2 :: "char \<Rightarrow> string" where
  "hex2 c = (let n = (of_char c :: nat) in [hex_digit (n div 16), hex_digit (n mod 16)])"

section \<open>Lexer primitives (lexer.c, lines 183-370)\<close>

definition utf8_char_length :: "char \<Rightarrow> nat" where
  "utf8_char_length c =
    (let n = (of_char c :: nat) in
       if n < 128 then 1
       else if 192 \<le> n \<and> n < 224 then 2
       else if 224 \<le> n \<and> n < 240 then 3
       else if 240 \<le> n \<and> n < 248 then 4
       else 1)"

definition is_identifier_start :: "char \<Rightarrow> bool" where
  "is_identifier_start c =
    (if isalpha_c c \<or> c = CHR ''_'' then True
     else if 192 \<le> (of_char c :: nat) then 2 \<le> utf8_char_length c
     else False)"

definition is_identifier_char :: "char \<Rightarrow> bool" where
  "is_identifier_char c =
    (if isalnum_c c \<or> c = CHR ''_'' then True
     else if 128 \<le> (of_char c :: nat) then True
     else False)"

definition zero_token :: Token where
  "zero_token = \<lparr>tok_type = TOKEN_VAR, tok_value = None, int_val = 0, float_val = 0,
                  tok_line = 0, tok_column = 0, tok_length = 0\<rparr>"

text \<open>\<^verbatim>\<open>calloc\<close> zeroes the structure; \<open>lexer_create\<close> then sets the fields below.\<close>

definition lexer_create :: "string \<Rightarrow> Lexer" where
  "lexer_create src =
    \<lparr>source = src, position = 0, line = 1, column = 1,
     start_position = 0, start_line = 1, start_column = 1,
     current = zero_token\<lparr>tok_type := TOKEN_EOF, tok_value := None,
                            tok_line := 1, tok_column := 1, tok_length := 0\<rparr>,
     lookahead = (zero_token, zero_token), lookahead_pos = 0,
     has_error = False, error_msg = [], string_buffer = []\<rparr>"

text \<open>\<^verbatim>\<open>vsnprintf\<close> into the 256-byte \<open>error_msg\<close>: at most 255 bytes of the C string.\<close>

definition lexer_error :: "Lexer \<Rightarrow> string \<Rightarrow> Lexer" where
  "lexer_error L msg = L\<lparr>error_msg := take 255 (c_str msg), has_error := True\<rparr>"

definition char_at :: "string \<Rightarrow> nat \<Rightarrow> char" where
  "char_at s i = (if i < length s then s ! i else NUL)"

definition lexer_peek :: "Lexer \<Rightarrow> char" where
  "lexer_peek L = char_at (source L) (position L)"

definition lexer_peek_at :: "Lexer \<Rightarrow> nat \<Rightarrow> char" where
  "lexer_peek_at L off = char_at (source L) (position L + off)"

text \<open>
  \<open>lexer_advance\<close> returns the byte under the cursor, which is \<open>lexer_peek\<close> of the
  state before the call; the model returns the new state only.
\<close>

definition lexer_advance :: "Lexer \<Rightarrow> Lexer" where
  "lexer_advance L =
    (let c = char_at (source L) (position L) in
       if c = NUL then L
       else if c = NEWLINE then L\<lparr>position := position L + 1, line := line L + 1, column := 1\<rparr>
       else L\<lparr>position := position L + 1, column := column L + 1\<rparr>)"

definition remaining :: "Lexer \<Rightarrow> nat" where
  "remaining L = length (source L) - position L"

lemma peek_not_NUL_in_range: "lexer_peek L \<noteq> NUL \<Longrightarrow> position L < length (source L)"
  by (simp add: lexer_peek_def char_at_def split: if_splits)

lemma source_advance [simp]: "source (lexer_advance L) = source L"
  by (simp add: lexer_advance_def Let_def)

lemma position_advance:
  "position (lexer_advance L) = (if lexer_peek L = NUL then position L else position L + 1)"
  by (simp add: lexer_advance_def lexer_peek_def Let_def)

lemma remaining_advance_less: "lexer_peek L \<noteq> NUL \<Longrightarrow> remaining (lexer_advance L) < remaining L"
  using peek_not_NUL_in_range [of L] by (simp add: remaining_def position_advance)

lemma remaining_advance_le: "remaining (lexer_advance L) \<le> remaining L"
  by (auto simp: remaining_def position_advance)

function lexer_skip_whitespace :: "Lexer \<Rightarrow> Lexer" where
  "lexer_skip_whitespace L =
    (if lexer_peek L \<noteq> NUL \<and>
        (lexer_peek L = CHR '' '' \<or> lexer_peek L = TAB \<or> lexer_peek L = CR)
     then lexer_skip_whitespace (lexer_advance L)
     else L)"
  by pat_completeness auto
termination
  by (relation "measure remaining") (auto simp: remaining_advance_less)

declare lexer_skip_whitespace.simps [simp del]

definition lexer_start_token :: "Lexer \<Rightarrow> Lexer" where
  "lexer_start_token L =
    L\<lparr>start_position := position L, start_line := line L, start_column := column L\<rparr>"

definition lexer_make_token :: "Lexer \<Rightarrow> TokenType \<Rightarrow> string option \<Rightarrow> Token" where
  "lexer_make_token L ty v =
    \<lparr>tok_type = ty, tok_value = map_option c_str v, int_val = 0, float_val = 0,
     tok_line = start_line L, tok_column = start_column L,
     tok_length = int (position L) - int (start_position L)\<rparr>"

definition lexer_make_number_token :: "Lexer \<Rightarrow> string \<Rightarrow> bool \<Rightarrow> bool \<Rightarrow> bool \<Rightarrow> Token" where
  "lexer_make_number_token L txt is_float is_hex is_binary =
    (let token = lexer_make_token L (if is_float then TOKEN_NUMBER_FLOAT else TOKEN_NUMBER_INT)
                   (Some txt)
     in if is_float then token\<lparr>float_val := atof txt\<rparr>
        else if is_hex then token\<lparr>int_val := strtol txt 16\<rparr>
        else if is_binary then token\<lparr>int_val := strtol (drop 2 txt) 2\<rparr>
        else token\<lparr>int_val := atol txt\<rparr>)"

section \<open>Comments (lexer.c, lines 373-417)\<close>

function line_comment_loop :: "Lexer \<Rightarrow> Lexer" where
  "line_comment_loop L =
    (if lexer_peek L \<noteq> NEWLINE \<and> lexer_peek L \<noteq> NUL
     then line_comment_loop (lexer_advance L)
     else L)"
  by pat_completeness auto
termination
  by (relation "measure remaining") (auto simp: remaining_advance_less)

declare line_comment_loop.simps [simp del]

definition lexer_skip_line_comment :: "Lexer \<Rightarrow> bool \<times> Lexer" where
  "lexer_skip_line_comment L =
    (if lexer_peek_at L 0 = CHR ''/'' \<and> lexer_peek_at L 1 = CHR ''/''
     then (True, line_comment_loop (lexer_advance (lexer_advance L)))
     else (False, L))"

text \<open>
  The loop of \<open>lexer_skip_block_comment\<close>, with the local \<open>depth\<close>. On a newline the
  body bumps \<open>line\<close> and sets \<open>column\<close> to 0 itself and then calls \<open>lexer_advance\<close>.
\<close>

function block_comment_loop :: "Lexer \<Rightarrow> nat \<Rightarrow> Lexer \<times> nat" where
  "block_comment_loop L depth =
    (if 0 < depth \<and> lexer_peek L \<noteq> NUL then
       (if lexer_peek_at L 0 = CHR ''/'' \<and> lexer_peek_at L 1 = CHR ''*''
        then block_comment_loop (lexer_advance (lexer_advance L)) (depth + 1)
        else if lexer_peek_at L 0 = CHR ''*'' \<and> lexer_peek_at L 1 = CHR ''/''
        then block_comment_loop (lexer_advance (lexer_advance L)) (depth - 1)
        else block_comment_loop
               (lexer_advance
                  (if lexer_peek L = NEWLINE then L\<lparr>line := line L + 1, column := 0\<rparr> else L))
               depth)
     else (L, depth))"
  by pat_completeness auto
termination
proof (relation "measure (\<lambda>(L, d). remaining L)", goal_cases)
  case 1
  show ?case by simp
next
  case (2 L depth)
  then have "remaining (lexer_advance L) < remaining L"
    by (simp add: remaining_advance_less)
  with remaining_advance_le [of "lexer_advance L"] show ?case by simp
next
  case (3 L depth)
  then have "remaining (lexer_advance L) < remaining L"
    by (simp add: remaining_advance_less)
  with remaining_advance_le [of "lexer_advance L"] show ?case by simp
next
  case (4 L depth)
  let ?L = "if lexer_peek L = NEWLINE then L\<lparr>line := line L + 1, column := 0\<rparr> else L"
  have "lexer_peek ?L = lexer_peek L" "remaining ?L = remaining L"
    by (simp_all add: lexer_peek_def remaining_def)
  with 4 remaining_advance_less [of ?L] show ?case by simp
qed

declare block_comment_loop.simps [simp del]

definition lexer_skip_block_comment :: "Lexer \<Rightarrow> bool \<times> Lexer" where
  "lexer_skip_block_comment L =
    (if lexer_peek_at L 0 = CHR ''/'' \<and> lexer_peek_at L 1 = CHR ''*'' then
       (let (L1, depth) = block_comment_loop (lexer_advance (lexer_advance L)) 1
        in (True, if 0 < depth then lexer_error L1 ''Unclosed multi-line comment'' else L1))
     else (False, L))"

section \<open>Numbers (lexer.c, lines 420-495)\<close>

text \<open>
  The body of the \<^verbatim>\<open>while (1)\<close> of \<open>lexer_read_number\<close>, with the flags \<open>is_float\<close>
  and \<open>has_exponent\<close> it updates (\<open>is_hex\<close> and \<open>is_binary\<close> are fixed before the
  loop). \<open>Break\<close> is a \<^verbatim>\<open>break\<close>; \<open>Continue\<close> is the \<^verbatim>\<open>continue\<close> after the two
  advances of a signed exponent, or the \<open>lexer_advance\<close> that ends the body.
\<close>

datatype 'a loop_ctl = Break 'a | Continue 'a

definition read_number_step ::
  "Lexer \<Rightarrow> bool \<Rightarrow> bool \<Rightarrow> bool \<Rightarrow> bool \<Rightarrow> (Lexer \<times> bool \<times> bool) loop_ctl" where
  "read_number_step L is_float has_exponent is_hex is_binary =
    (let c = lexer_peek L in
     if is_hex then
       (if \<not> isxdigit_c c then Break (L, is_float, has_exponent)
        else Continue (lexer_advance L, is_float, has_exponent))
     else if is_binary then
       (if c \<noteq> CHR ''0'' \<and> c \<noteq> CHR ''1'' then Break (L, is_float, has_exponent)
        else Continue (lexer_advance L, is_float, has_exponent))
     else if c = CHR ''.'' then
       (if is_float \<or> has_exponent
        then Break (lexer_error L ''Invalid number format'', is_float, has_exponent)
        else Continue (lexer_advance L, True, has_exponent))
     else if c = CHR ''e'' \<or> c = CHR ''E'' then
       (if has_exponent
        then Break (lexer_error L ''Invalid number format'', is_float, has_exponent)
        else if lexer_peek_at L 1 = CHR ''+'' \<or> lexer_peek_at L 1 = CHR ''-''
        then Continue (lexer_advance (lexer_advance L), True, True)
        else Continue (lexer_advance L, True, True))
     else if \<not> isdigit_c c then Break (L, is_float, has_exponent)
     else Continue (lexer_advance L, is_float, has_exponent))"

lemma isdigit_not_NUL: "isdigit_c c \<Longrightarrow> c \<noteq> NUL"
  by (auto simp: isdigit_c_def)

lemma isxdigit_not_NUL: "isxdigit_c c \<Longrightarrow> c \<noteq> NUL"
  by (auto simp: isxdigit_c_def)

lemma remaining_two_advances:
  "lexer_peek L \<noteq> NUL \<Longrightarrow> remaining (lexer_advance (lexer_advance L)) < remaining L"
  using remaining_advance_less [of L] remaining_advance_le [of "lexer_advance L"] by simp

lemma remaining_read_number_step:
  assumes "read_number_step L f e h b = Continue (L', f', e')"
  shows "remaining L' < remaining L"
proof -
  from assms have "lexer_peek L \<noteq> NUL"
    by (auto simp: read_number_step_def Let_def isdigit_not_NUL isxdigit_not_NUL
          split: if_splits)
  with assms show ?thesis
    using remaining_advance_less [of L] remaining_two_advances [of L]
    by (auto simp: read_number_step_def Let_def split: if_splits)
qed

function read_number_loop :: "Lexer \<Rightarrow> bool \<Rightarrow> bool \<Rightarrow> bool \<Rightarrow> bool \<Rightarrow> Lexer \<times> bool \<times> bool" where
  "read_number_loop L is_float has_exponent is_hex is_binary =
    (case read_number_step L is_float has_exponent is_hex is_binary of
       Break r \<Rightarrow> r
     | Continue r \<Rightarrow> read_number_loop (fst r) (fst (snd r)) (snd (snd r)) is_hex is_binary)"
  by pat_completeness auto
termination
proof (relation "measure (\<lambda>(L, _). remaining L)", goal_cases)
  case 1
  show ?case by simp
next
  case (2 L is_float has_exponent is_hex is_binary r)
  then have "read_number_step L is_float has_exponent is_hex is_binary
             = Continue (fst r, fst (snd r), snd (snd r))"
    by simp
  from remaining_read_number_step [OF this] show ?case by simp
qed

declare read_number_loop.simps [simp del]

text \<open>The prefix test of \<open>lexer_read_number\<close>: \<^verbatim>\<open>0x\<close> selects hexadecimal, else \<^verbatim>\<open>0b\<close> binary.\<close>

definition number_is_hex :: "Lexer \<Rightarrow> bool" where
  "number_is_hex L =
    (lexer_peek L = CHR ''0'' \<and> (lexer_peek_at L 1 = CHR ''x'' \<or> lexer_peek_at L 1 = CHR ''X''))"

definition number_is_binary :: "Lexer \<Rightarrow> bool" where
  "number_is_binary L =
    (lexer_peek L = CHR ''0'' \<and> \<not> number_is_hex L \<and>
     (lexer_peek_at L 1 = CHR ''b'' \<or> lexer_peek_at L 1 = CHR ''B''))"

definition lexer_read_number :: "Lexer \<Rightarrow> Token \<times> Lexer" where
  "lexer_read_number L0 =
    (let L = lexer_start_token L0;
         is_hex = number_is_hex L;
         is_binary = number_is_binary L;
         L1 = (if is_hex \<or> is_binary then lexer_advance (lexer_advance L) else L);
         r = read_number_loop L1 False False is_hex is_binary;
         L2 = fst r;
         is_float = fst (snd r);
         len = position L2 - start_position L2;
         number_text = take len (drop (start_position L2) (source L2))
     in (lexer_make_number_token L2 number_text is_float is_hex is_binary, L2))"

section \<open>Strings (lexer.c, lines 498-563)\<close>

text \<open>
  The \<^verbatim>\<open>for\<close> loop of the \<^verbatim>\<open>\u\<close> escape: up to four bytes are consumed, stopping after
  the first that is not a hexadecimal digit. The argument counts the iterations left.
\<close>

fun unicode_escape_loop :: "nat \<Rightarrow> Lexer \<Rightarrow> Lexer" where
  "unicode_escape_loop 0 L = L"
| "unicode_escape_loop (Suc k) L =
    (if \<not> isxdigit_c (lexer_peek L)
     then lexer_error (lexer_advance L) ''Invalid Unicode escape''
     else unicode_escape_loop k (lexer_advance L))"

text \<open>
  The \<^verbatim>\<open>switch\<close> on the byte after a backslash. \<open>L\<close> is the state after the backslash
  was consumed; the result is the byte to store and the new state. An unknown escape
  leaves \<open>c\<close> as it was, the backslash.
\<close>

definition read_escape :: "Lexer \<Rightarrow> char \<times> Lexer" where
  "read_escape L =
    (let next = lexer_peek L; L1 = lexer_advance L in
     if next = CHR ''n'' then (NEWLINE, L1)
     else if next = CHR ''t'' then (TAB, L1)
     else if next = CHR ''r'' then (CR, L1)
     else if next = DQUOTE then (DQUOTE, L1)
     else if next = SQUOTE then (SQUOTE, L1)
     else if next = BACKSLASH then (BACKSLASH, L1)
     else if next = CHR ''0'' then (NUL, L1)
     else if next = CHR ''x'' then
       (let h0 = lexer_peek L1; L2 = lexer_advance L1;
            h1 = lexer_peek L2; L3 = lexer_advance L2
        in (char_of (strtol (c_str [h0, h1]) 16), L3))
     else if next = CHR ''u'' then (CHR ''?'', unicode_escape_loop 4 L1)
     else (BACKSLASH, lexer_error L1 (''Unknown escape sequence: '' @ [BACKSLASH, next])))"

lemma source_lexer_error [simp]: "source (lexer_error L m) = source L"
  by (simp add: lexer_error_def)

lemma position_lexer_error [simp]: "position (lexer_error L m) = position L"
  by (simp add: lexer_error_def)

lemma remaining_lexer_error [simp]: "remaining (lexer_error L m) = remaining L"
  by (simp add: remaining_def)

lemma lexer_peek_lexer_error [simp]: "lexer_peek (lexer_error L m) = lexer_peek L"
  by (simp add: lexer_peek_def)

lemma remaining_unicode_escape_loop: "remaining (unicode_escape_loop k L) \<le> remaining L"
proof (induction k arbitrary: L)
  case 0
  show ?case by simp
next
  case (Suc k)
  show ?case
    using Suc.IH [of "lexer_advance L"] remaining_advance_le [of L] by simp
qed

lemma remaining_read_escape: "remaining (snd (read_escape L)) \<le> remaining L"
proof -
  have a1: "remaining (lexer_advance L) \<le> remaining L"
    by (rule remaining_advance_le)
  have a2: "remaining (lexer_advance (lexer_advance L)) \<le> remaining L"
    using remaining_advance_le [of "lexer_advance L"] a1 by simp
  have a3: "remaining (lexer_advance (lexer_advance (lexer_advance L))) \<le> remaining L"
    using remaining_advance_le [of "lexer_advance (lexer_advance L)"] a2 by simp
  have a4: "remaining (unicode_escape_loop 4 (lexer_advance L)) \<le> remaining L"
    using remaining_unicode_escape_loop [of 4 "lexer_advance L"] a1 by simp
  show ?thesis
    using a1 a2 a3 a4 by (simp add: read_escape_def Let_def)
qed

text \<open>
  One iteration of the string loop up to the buffer test: the byte under the cursor is
  consumed and, when it is a backslash, the escape after it is decoded. The result is
  the byte \<open>c\<close> to store and the new state.
\<close>

definition read_string_char :: "Lexer \<Rightarrow> char \<times> Lexer" where
  "read_string_char L =
    (if lexer_peek L = BACKSLASH then read_escape (lexer_advance L)
     else (lexer_peek L, lexer_advance L))"

lemma remaining_read_string_char:
  "lexer_peek L \<noteq> NUL \<Longrightarrow> remaining (snd (read_string_char L)) < remaining L"
  using remaining_read_escape [of "lexer_advance L"] remaining_advance_less [of L]
  by (simp add: read_string_char_def)

function read_string_loop :: "Lexer \<Rightarrow> char \<Rightarrow> Lexer" where
  "read_string_loop L quote =
    (if lexer_peek L \<noteq> quote \<and> lexer_peek L \<noteq> NUL then
       (if MAX_STRING_LENGTH - 1 \<le> length (string_buffer (snd (read_string_char L)))
        then lexer_error (snd (read_string_char L)) ''String too long''
        else read_string_loop
               ((snd (read_string_char L))
                  \<lparr>string_buffer := string_buffer (snd (read_string_char L)) @
                                     [fst (read_string_char L)]\<rparr>) quote)
     else L)"
  by pat_completeness auto
termination
proof (relation "measure (\<lambda>(L, q). remaining L)", goal_cases)
  case 1
  show ?case by simp
next
  case (2 L quote)
  then show ?case
    using remaining_read_string_char [of L] by (simp add: remaining_def)
qed

declare read_string_loop.simps [simp del]

definition lexer_read_string :: "Lexer \<Rightarrow> Token \<times> Lexer" where
  "lexer_read_string L0 =
    (let L = lexer_start_token L0;
         quote = lexer_peek L;
         L1 = (lexer_advance L)\<lparr>string_buffer := []\<rparr>;
         L2 = read_string_loop L1 quote
     in if lexer_peek L2 \<noteq> quote then
          (let L3 = lexer_error L2 ''Unclosed string''
           in ((lexer_make_token L3 TOKEN_ERROR (Some ''Unclosed string''))\<lparr>tok_length := 0\<rparr>, L3))
        else
          (let L3 = lexer_advance L2
           in (lexer_make_token L3 TOKEN_STRING (Some (string_buffer L3)), L3)))"

section \<open>Identifiers and operators (lexer.c, lines 566-649)\<close>

function read_identifier_loop :: "Lexer \<Rightarrow> Lexer" where
  "read_identifier_loop L =
    (if is_identifier_char (lexer_peek L) then
       (if MAX_IDENTIFIER_LENGTH \<le> position L - start_position L
        then lexer_error L ''Identifier too long''
        else read_identifier_loop (lexer_advance L))
     else L)"
  by pat_completeness auto
termination
proof (relation "measure remaining", goal_cases)
  case 1
  show ?case by simp
next
  case (2 L)
  then have "lexer_peek L \<noteq> NUL"
    by (auto simp: is_identifier_char_def isalnum_c_def isalpha_c_def isdigit_c_def split: if_splits)
  then show ?case by (simp add: remaining_advance_less)
qed

declare read_identifier_loop.simps [simp del]

definition lexer_read_identifier :: "Lexer \<Rightarrow> Token \<times> Lexer" where
  "lexer_read_identifier L0 =
    (let L = lexer_start_token L0;
         L1 = read_identifier_loop (lexer_advance L);
         len = position L1 - start_position L1;
         txt = c_str (take len (drop (start_position L1) (source L1)))
     in case map_of keyword_table txt of
          Some ty \<Rightarrow> (lexer_make_token L1 ty None, L1)
        | None \<Rightarrow> (lexer_make_token L1 TOKEN_IDENTIFIER (Some txt), L1))"

text \<open>The inner loop of \<open>lexer_read_operator\<close>: every byte of the operator is at the cursor.\<close>

definition operator_matches :: "Lexer \<Rightarrow> string \<times> nat \<Rightarrow> bool" where
  "operator_matches L op = list_all (\<lambda>j. lexer_peek_at L j = fst op ! j) [0..<snd op]"

text \<open>The outer loop over the table, with the local \<open>best_op\<close>.\<close>

fun find_best_op :: "Lexer \<Rightarrow> (string \<times> nat) list \<Rightarrow> (string \<times> nat) option \<Rightarrow> (string \<times> nat) option" where
  "find_best_op L [] best_op = best_op"
| "find_best_op L (op # ops) best_op =
    find_best_op L ops
      (if operator_matches L op \<and>
          (case best_op of None \<Rightarrow> True | Some b \<Rightarrow> snd b < snd op)
       then Some op else best_op)"

fun advance_times :: "nat \<Rightarrow> Lexer \<Rightarrow> Lexer" where
  "advance_times 0 L = L"
| "advance_times (Suc k) L = advance_times k (lexer_advance L)"

definition lexer_read_operator :: "Lexer \<Rightarrow> Token \<times> Lexer" where
  "lexer_read_operator L0 =
    (let L = lexer_start_token L0 in
     case find_best_op L operator_table None of
       Some best_op \<Rightarrow>
         (let L1 = advance_times (snd best_op) L
          in (lexer_make_token L1 TOKEN_OPERATOR (Some (fst best_op)), L1))
     | None \<Rightarrow>
         (let L1 = lexer_error L (''Unknown operator: '' @ [SQUOTE, lexer_peek L, SQUOTE]);
              L2 = lexer_advance L1
          in ((lexer_make_token L2 TOKEN_ERROR (Some ''Unknown operator''))\<lparr>tok_length := 0\<rparr>, L2)))"

section \<open>The token functions (lexer.c, lines 652-803)\<close>

lemma remaining_skip_whitespace: "remaining (lexer_skip_whitespace L) \<le> remaining L"
proof (induction L rule: lexer_skip_whitespace.induct)
  case (1 L)
  show ?case
  proof (cases "lexer_peek L \<noteq> NUL \<and>
      (lexer_peek L = CHR '' '' \<or> lexer_peek L = TAB \<or> lexer_peek L = CR)")
    case True
    then have "remaining (lexer_skip_whitespace (lexer_advance L)) \<le> remaining (lexer_advance L)"
      using "1.IH" by blast
    moreover have "lexer_skip_whitespace L = lexer_skip_whitespace (lexer_advance L)"
      using True by (subst lexer_skip_whitespace.simps) simp
    ultimately show ?thesis
      using remaining_advance_le [of L] by simp
  next
    case False
    then have "lexer_skip_whitespace L = L"
      by (subst lexer_skip_whitespace.simps) auto
    then show ?thesis by simp
  qed
qed

lemma remaining_line_comment_loop: "remaining (line_comment_loop L) \<le> remaining L"
proof (induction L rule: line_comment_loop.induct)
  case (1 L)
  show ?case
  proof (cases "lexer_peek L \<noteq> NEWLINE \<and> lexer_peek L \<noteq> NUL")
    case True
    then have "remaining (line_comment_loop (lexer_advance L)) \<le> remaining (lexer_advance L)"
      using "1.IH" by blast
    moreover have "line_comment_loop L = line_comment_loop (lexer_advance L)"
      using True by (subst line_comment_loop.simps) simp
    ultimately show ?thesis
      using remaining_advance_le [of L] by simp
  next
    case False
    then have "line_comment_loop L = L"
      by (subst line_comment_loop.simps) auto
    then show ?thesis by simp
  qed
qed

lemma peek_at_0: "lexer_peek_at L 0 = lexer_peek L"
  by (simp add: lexer_peek_at_def lexer_peek_def)

lemma remaining_skip_line_comment:
  "lexer_skip_line_comment L = (True, L') \<Longrightarrow> remaining L' < remaining L"
proof -
  assume a: "lexer_skip_line_comment L = (True, L')"
  then have c: "lexer_peek L = CHR ''/''"
    and l: "L' = line_comment_loop (lexer_advance (lexer_advance L))"
    by (auto simp: lexer_skip_line_comment_def peek_at_0 split: if_splits)
  from c have "remaining (lexer_advance (lexer_advance L)) < remaining L"
    by (intro remaining_two_advances) simp
  with remaining_line_comment_loop [of "lexer_advance (lexer_advance L)"] l
  show ?thesis by simp
qed

lemma remaining_block_comment_loop: "remaining (fst (block_comment_loop L d)) \<le> remaining L"
proof (induction L d rule: block_comment_loop.induct)
  case (1 L depth)
  let ?M = "if lexer_peek L = NEWLINE then L\<lparr>line := line L + 1, column := 0\<rparr> else L"
  have m: "remaining (lexer_advance ?M) \<le> remaining L"
    using remaining_advance_le [of ?M] by (simp add: remaining_def split: if_splits)
  have two: "remaining (lexer_advance (lexer_advance L)) \<le> remaining L"
    using remaining_advance_le [of L] remaining_advance_le [of "lexer_advance L"] by simp
  show ?case
  proof (cases "0 < depth \<and> lexer_peek L \<noteq> NUL")
    case False
    then have "block_comment_loop L depth = (L, depth)"
      by (subst block_comment_loop.simps) auto
    then show ?thesis by simp
  next
    case go: True
    show ?thesis
    proof (cases "lexer_peek_at L 0 = CHR ''/'' \<and> lexer_peek_at L 1 = CHR ''*''")
      case True
      then have "block_comment_loop L depth
                 = block_comment_loop (lexer_advance (lexer_advance L)) (depth + 1)"
        using go by (subst block_comment_loop.simps) simp
      then show ?thesis using "1.IH"(1) [OF go True] two by simp
    next
      case nopen: False
      show ?thesis
      proof (cases "lexer_peek_at L 0 = CHR ''*'' \<and> lexer_peek_at L 1 = CHR ''/''")
        case True
        then have "block_comment_loop L depth
                   = block_comment_loop (lexer_advance (lexer_advance L)) (depth - 1)"
          using go nopen by (subst block_comment_loop.simps) auto
        then show ?thesis using "1.IH"(2) [OF go nopen True] two by simp
      next
        case False
        then have "block_comment_loop L depth = block_comment_loop (lexer_advance ?M) depth"
          using go nopen by (subst block_comment_loop.simps) auto
        then show ?thesis using "1.IH"(3) [OF go nopen False] m by simp
      qed
    qed
  qed
qed

lemma remaining_skip_block_comment:
  "lexer_skip_block_comment L = (True, L') \<Longrightarrow> remaining L' < remaining L"
proof -
  assume a: "lexer_skip_block_comment L = (True, L')"
  let ?B = "block_comment_loop (lexer_advance (lexer_advance L)) 1"
  from a have c: "lexer_peek L = CHR ''/''"
    by (auto simp: lexer_skip_block_comment_def peek_at_0 split: if_splits)
  from a have "remaining L' = remaining (fst ?B)"
    by (auto simp: lexer_skip_block_comment_def split: if_splits prod.splits)
  moreover from c have "remaining (lexer_advance (lexer_advance L)) < remaining L"
    by (intro remaining_two_advances) simp
  ultimately show ?thesis
    using remaining_block_comment_loop [of "lexer_advance (lexer_advance L)" 1] by simp
qed

text \<open>
  The \<^verbatim>\<open>while (1)\<close> of \<open>lexer_next\<close>: blanks and comments are skipped until neither
  starts at the cursor (each \<^verbatim>\<open>continue\<close> is a recursive call).
\<close>

function skip_blanks_and_comments :: "Lexer \<Rightarrow> Lexer" where
  "skip_blanks_and_comments L =
    (let lc = lexer_skip_line_comment (lexer_skip_whitespace L)
     in if fst lc then skip_blanks_and_comments (snd lc)
        else
          (let bc = lexer_skip_block_comment (snd lc)
           in if fst bc then skip_blanks_and_comments (snd bc) else snd bc))"
  by pat_completeness auto
termination
proof (relation "measure remaining", goal_cases)
  case 1
  show ?case by simp
next
  case (2 L lc)
  then have "lexer_skip_line_comment (lexer_skip_whitespace L) = (True, snd lc)"
    by (simp add: prod_eq_iff)
  from remaining_skip_line_comment [OF this] remaining_skip_whitespace [of L]
  show ?case by simp
next
  case (3 L lc bc)
  then have nl: "snd lc = lexer_skip_whitespace L"
    by (auto simp: lexer_skip_line_comment_def split: if_splits)
  from 3 have "lexer_skip_block_comment (snd lc) = (True, snd bc)"
    by (simp add: prod_eq_iff)
  from remaining_skip_block_comment [OF this] remaining_skip_whitespace [of L] nl
  show ?case by simp
qed

declare skip_blanks_and_comments.simps [simp del]

text \<open>
  The rest of \<open>lexer_next\<close> once the lookahead buffer is empty: the end-of-file and
  newline tests that close the loop, and the dispatch on the first byte of the token.
\<close>

definition lexer_next_scan :: "Lexer \<Rightarrow> Token \<times> Lexer" where
  "lexer_next_scan L =
    (let L2 = skip_blanks_and_comments L; c = lexer_peek L2 in
     if c = NUL then (lexer_make_token L2 TOKEN_EOF None, L2)
     else if c = NEWLINE then
       (let L3 = lexer_advance (lexer_start_token L2)
        in (lexer_make_token L3 TOKEN_NEWLINE (Some [NEWLINE]), L3))
     else if isdigit_c c \<or> (c = CHR ''.'' \<and> isdigit_c (lexer_peek_at L2 1))
     then lexer_read_number L2
     else if c = DQUOTE \<or> c = SQUOTE then lexer_read_string L2
     else if is_identifier_start c then lexer_read_identifier L2
     else if list_ex (\<lambda>op. lexer_peek_at L2 0 = hd (fst op)) operator_table
     then lexer_read_operator L2
     else if c \<in> set punctuation_chars then
       (let L3 = lexer_advance (lexer_start_token L2)
        in (lexer_make_token L3 TOKEN_PUNCTUATION (Some [c]), L3))
     else
       (let L3 = lexer_start_token L2;
            L4 = lexer_error L3
                   (''Unknown character: '' @ [SQUOTE, c, SQUOTE] @ '' (0x'' @ hex2 c @ '')'');
            L5 = lexer_advance L4
        in ((lexer_make_token L5 TOKEN_ERROR (Some ''Unknown character''))\<lparr>tok_length := 0\<rparr>,
            L5)))"

definition lexer_next :: "Lexer \<Rightarrow> Token \<times> Lexer" where
  "lexer_next L =
    (if 0 < lookahead_pos L then
       (let token = fst (lookahead L);
            shifted = snd (lookahead L)
        in (token, L\<lparr>lookahead := (shifted, shifted\<lparr>tok_value := None\<rparr>),
                      lookahead_pos := lookahead_pos L - 1\<rparr>))
     else lexer_next_scan L)"

text \<open>Reading and writing \<^verbatim>\<open>lookahead[i]\<close> for an index below \<open>MAX_LOOKAHEAD\<close>.\<close>

definition lookahead_get :: "Token \<times> Token \<Rightarrow> nat \<Rightarrow> Token" where
  "lookahead_get la i = (if i = 0 then fst la else snd la)"

definition lookahead_set :: "Token \<times> Token \<Rightarrow> nat \<Rightarrow> Token \<Rightarrow> Token \<times> Token" where
  "lookahead_set la i t = (if i = 0 then (t, snd la) else (fst la, t))"

text \<open>
  The filling loop of \<open>lexer_peek_token\<close>. It calls \<open>lexer_next\<close>, which takes a token
  out of the buffer when one is there, so the loop need not end: it is a partial function.
\<close>

partial_function (option) peek_token_loop :: "Lexer \<Rightarrow> nat \<Rightarrow> Lexer option" where
  "peek_token_loop L k =
    (if lookahead_pos L \<le> k then
       peek_token_loop
         ((snd (lexer_next L))
            \<lparr>lookahead := lookahead_set (lookahead (snd (lexer_next L)))
                            (lookahead_pos (snd (lexer_next L))) (fst (lexer_next L)),
             lookahead_pos := lookahead_pos (snd (lexer_next L)) + 1\<rparr>) k
     else Some L)"

definition lexer_peek_token :: "Lexer \<Rightarrow> nat \<Rightarrow> (Token \<times> Lexer) option" where
  "lexer_peek_token L k =
    (if MAX_LOOKAHEAD \<le> k then
       Some (zero_token\<lparr>tok_type := TOKEN_ERROR\<rparr>, L)
     else map_option (\<lambda>L1. (lookahead_get (lookahead L1) k, L1)) (peek_token_loop L k))"

definition lexer_skip :: "Lexer \<Rightarrow> Lexer" where
  "lexer_skip L =
    (if 0 < lookahead_pos L then
       (let shifted = snd (lookahead L)
        in L\<lparr>lookahead := (shifted, shifted\<lparr>tok_value := None\<rparr>),
              lookahead_pos := lookahead_pos L - 1\<rparr>)
     else (snd (lexer_next L))\<lparr>current := fst (lexer_next L)\<rparr>)"

definition lexer_current :: "Lexer \<Rightarrow> Token" where
  "lexer_current L = (if 0 < lookahead_pos L then fst (lookahead L) else current L)"

section \<open>The string and number scans as functions of the text\<close>

text \<open>
  Two claims speak of the text of a literal: whether the quote that opens a string
  literal is matched, and where a malformed number stops. The functions of this
  section say it on the text alone; the claims relate them to the lexer.

  \<open>unread\<close> is the C string from the cursor on. \<open>escape_length\<close> is the number of
  bytes an escape sequence takes after its backslash: the escape letter, then two
  more bytes for \<^verbatim>\<open>\x\<close>, and for \<^verbatim>\<open>\u\<close> up to four, ending after the first that
  is not a hexadecimal digit. \<open>after_content\<close> is the text left once a content byte
  \<open>c\<close> (and the escape it opens, when it is a backslash) was read.

  \<open>closing_quote_reached q k s\<close>: reading the content \<open>s\<close> of a literal opened by the
  quote \<open>q\<close>, with \<open>k\<close> content characters stored so far, comes to stand on the
  closing quote. The reading stops short when the text ends, or after the content
  character read with \<open>MAX_STRING_LENGTH - 1\<close> characters stored. No byte other than
  the quote and the backslash is special: a newline is content.
\<close>

definition unread :: "Lexer \<Rightarrow> string" where
  "unread L = c_str (drop (position L) (source L))"

fun unicode_escape_length :: "nat \<Rightarrow> string \<Rightarrow> nat" where
  "unicode_escape_length 0 s = 0"
| "unicode_escape_length (Suc k) [] = 0"
| "unicode_escape_length (Suc k) (c # s) =
    (if isxdigit_c c then Suc (unicode_escape_length k s) else 1)"

definition escape_length :: "string \<Rightarrow> nat" where
  "escape_length s =
    (case s of
       [] \<Rightarrow> 0
     | next # t \<Rightarrow>
         if next = CHR ''x'' then 1 + min 2 (length t)
         else if next = CHR ''u'' then 1 + unicode_escape_length 4 t
         else 1)"

definition after_content :: "char \<Rightarrow> string \<Rightarrow> string" where
  "after_content c t = (if c = BACKSLASH then drop (escape_length t) t else t)"

function closing_quote_reached :: "char \<Rightarrow> nat \<Rightarrow> string \<Rightarrow> bool" where
  "closing_quote_reached q k [] = False"
| "closing_quote_reached q k (c # t) =
    (if c = q then True
     else if MAX_STRING_LENGTH - 1 \<le> k
     then (case after_content c t of [] \<Rightarrow> False | d # _ \<Rightarrow> d = q)
     else closing_quote_reached q (Suc k) (after_content c t))"
  by pat_completeness auto
termination
  by (relation "measure (\<lambda>(q, k, s). length s)") (auto simp: after_content_def)

text \<open>
  \<open>offending_mark seen_dot seen_exp s\<close>: reading a decimal literal from the text \<open>s\<close>
  (digits, one dot, one exponent letter with an optional sign right after it), the
  offset of the first dot that follows a dot or an exponent letter, or of the first
  exponent letter that follows an exponent letter; \<open>None\<close> when the literal ends
  before any such mark.
\<close>

fun offending_mark :: "bool \<Rightarrow> bool \<Rightarrow> string \<Rightarrow> nat option" where
  "offending_mark seen_dot seen_exp [] = None"
| "offending_mark seen_dot seen_exp (c # s) =
    (if c = CHR ''.'' then
       (if seen_dot \<or> seen_exp then Some 0
        else map_option Suc (offending_mark True seen_exp s))
     else if c = CHR ''e'' \<or> c = CHR ''E'' then
       (if seen_exp then Some 0
        else case s of
               [] \<Rightarrow> None
             | sign # s' \<Rightarrow>
                 if sign = CHR ''+'' \<or> sign = CHR ''-''
                 then map_option (\<lambda>k. k + 2) (offending_mark True True s')
                 else map_option Suc (offending_mark True True s))
     else if isdigit_c c then map_option Suc (offending_mark seen_dot seen_exp s)
     else None)"

section \<open>Facts about the lexer\<close>

lemma skip_whitespace_id:
  "lexer_peek L \<noteq> CHR '' '' \<Longrightarrow> lexer_peek L \<noteq> TAB \<Longrightarrow> lexer_peek L \<noteq> CR \<Longrightarrow>
   lexer_skip_whitespace L = L"
  by (subst lexer_skip_whitespace.simps) simp

lemma skip_blanks_and_comments_id:
  assumes "lexer_peek L \<noteq> CHR '' ''" "lexer_peek L \<noteq> TAB" "lexer_peek L \<noteq> CR"
    and "\<not> (lexer_peek L = CHR ''/'' \<and> (lexer_peek_at L 1 = CHR ''/'' \<or> lexer_peek_at L 1 = CHR ''*''))"
  shows "skip_blanks_and_comments L = L"
  using assms
  by (subst skip_blanks_and_comments.simps)
     (auto simp: skip_whitespace_id lexer_skip_line_comment_def lexer_skip_block_comment_def
        peek_at_0 Let_def)

lemma peek_advance:
  "lexer_peek L \<noteq> NUL \<Longrightarrow> lexer_peek (lexer_advance L) = lexer_peek_at L 1"
  by (simp add: lexer_peek_def lexer_peek_at_def lexer_advance_def Let_def)

lemma advance_two:
  assumes "lexer_peek L \<noteq> NUL" "lexer_peek L \<noteq> NEWLINE"
     "lexer_peek_at L 1 \<noteq> NUL" "lexer_peek_at L 1 \<noteq> NEWLINE"
  shows "advance_times 2 L = L\<lparr>position := position L + 2, column := column L + 2\<rparr>"
proof -
  have 1: "lexer_advance L = L\<lparr>position := position L + 1, column := column L + 1\<rparr>"
    using assms by (simp add: lexer_advance_def lexer_peek_def Let_def)
  have "lexer_peek (lexer_advance L) = lexer_peek_at L 1"
    using assms by (simp add: peek_advance)
  then have "lexer_advance (lexer_advance L)
     = (lexer_advance L)\<lparr>position := position (lexer_advance L) + 1,
                           column := column (lexer_advance L) + 1\<rparr>"
    using assms by (simp add: lexer_advance_def [of "lexer_advance L"] lexer_peek_def Let_def)
  then show ?thesis
    by (simp add: numeral_2_eq_2 1)
qed


lemma two_char_first_byte:
  assumes "op \<in> {''=='', ''!='', ''<='', ''>='', ''&&'', ''||'',
                 ''+='', ''-='', ''*='', ''/='', ''%=''}"
  shows "op ! 0 \<in> set ''=!<>&|+-*/%''" and "op ! 1 \<in> set ''=&|''"
    and "c_str op = op" and "length op = 2"
  using assms by (auto simp: c_str_def)

lemma two_char_best_op:
  assumes ops: "op \<in> {''=='', ''!='', ''<='', ''>='', ''&&'', ''||'',
                      ''+='', ''-='', ''*='', ''/='', ''%=''}"
    and s0: "lexer_peek_at S 0 = op ! 0" and s1: "lexer_peek_at S 1 = op ! 1"
  shows "find_best_op S operator_table None = Some (op, 2)"
  using ops s0 s1
  apply (elim insertE emptyE)
  apply (simp_all add: operator_table_def operator_matches_def numeral_2_eq_2)
  done


lemma first_byte_dispatch:
  assumes c: "c \<in> set ''=!<>&|+-*/%''"
  shows "c \<noteq> NUL" "c \<noteq> NEWLINE" "c \<noteq> CHR '' ''" "c \<noteq> TAB" "c \<noteq> CR"
    "\<not> isdigit_c c" "c \<noteq> CHR ''.''" "c \<noteq> DQUOTE" "c \<noteq> SQUOTE"
    "\<not> is_identifier_start c"
  using c
  by (auto simp: isdigit_c_def is_identifier_start_def isalpha_c_def utf8_char_length_def)

lemma first_byte_in_table:
  assumes c: "c \<in> set ''=!<>&|+-*/%''" and p: "lexer_peek_at S 0 = c"
  shows "list_ex (\<lambda>op. lexer_peek_at S 0 = hd (fst op)) operator_table"
  using c p by (auto simp: operator_table_def)


subsection \<open>Scanning does not read or change the token buffers\<close>

text \<open>
  \<open>with_buffer\<close> replaces the three fields that hold tokens (\<open>current\<close>, \<open>lookahead\<close>,
  \<open>lookahead_pos\<close>). Every scanning function commutes with it: what is scanned depends
  on the source and the cursor only.
\<close>

definition with_buffer :: "Lexer \<Rightarrow> Token \<times> Token \<Rightarrow> nat \<Rightarrow> Token \<Rightarrow> Lexer" where
  "with_buffer L la k t = L\<lparr>current := t, lookahead := la, lookahead_pos := k\<rparr>"

lemma with_buffer_same [simp]:
  "with_buffer L (lookahead L) (lookahead_pos L) (current L) = L"
  by (simp add: with_buffer_def)

lemma with_buffer_fields [simp]:
  "source (with_buffer L la k t) = source L"
  "position (with_buffer L la k t) = position L"
  "line (with_buffer L la k t) = line L"
  "column (with_buffer L la k t) = column L"
  "start_position (with_buffer L la k t) = start_position L"
  "start_line (with_buffer L la k t) = start_line L"
  "start_column (with_buffer L la k t) = start_column L"
  "has_error (with_buffer L la k t) = has_error L"
  "error_msg (with_buffer L la k t) = error_msg L"
  "string_buffer (with_buffer L la k t) = string_buffer L"
  "lookahead (with_buffer L la k t) = la"
  "lookahead_pos (with_buffer L la k t) = k"
  "current (with_buffer L la k t) = t"
  by (simp_all add: with_buffer_def)

lemma with_buffer_twice [simp]:
  "with_buffer (with_buffer L la k t) la' k' t' = with_buffer L la' k' t'"
  by (simp add: with_buffer_def)

lemma peek_buffer [simp]:
  "lexer_peek (with_buffer L la k t) = lexer_peek L"
  "lexer_peek_at (with_buffer L la k t) j = lexer_peek_at L j"
  by (simp_all add: lexer_peek_def lexer_peek_at_def)

lemma advance_buffer [simp]:
  "lexer_advance (with_buffer L la k t) = with_buffer (lexer_advance L) la k t"
  by (simp add: lexer_advance_def with_buffer_def Let_def)

lemma error_buffer [simp]:
  "lexer_error (with_buffer L la k t) m = with_buffer (lexer_error L m) la k t"
  by (simp add: lexer_error_def with_buffer_def)

lemma start_token_buffer [simp]:
  "lexer_start_token (with_buffer L la k t) = with_buffer (lexer_start_token L) la k t"
  by (simp add: lexer_start_token_def with_buffer_def)

lemma make_token_buffer [simp]:
  "lexer_make_token (with_buffer L la k t) ty v = lexer_make_token L ty v"
  by (simp add: lexer_make_token_def)

lemma make_number_token_buffer [simp]:
  "lexer_make_number_token (with_buffer L la k t) txt f h b = lexer_make_number_token L txt f h b"
  by (simp add: lexer_make_number_token_def)

lemma skip_whitespace_buffer [simp]:
  "lexer_skip_whitespace (with_buffer L la k t) = with_buffer (lexer_skip_whitespace L) la k t"
proof (induction L rule: lexer_skip_whitespace.induct)
  case (1 L)
  show ?case
    by (subst lexer_skip_whitespace.simps [of L],
        subst lexer_skip_whitespace.simps [of "with_buffer L la k t"])
       (use 1 in auto)
qed

lemma line_comment_loop_buffer [simp]:
  "line_comment_loop (with_buffer L la k t) = with_buffer (line_comment_loop L) la k t"
proof (induction L rule: line_comment_loop.induct)
  case (1 L)
  show ?case
    by (subst line_comment_loop.simps [of L],
        subst line_comment_loop.simps [of "with_buffer L la k t"])
       (use 1 in auto)
qed

lemma skip_line_comment_buffer [simp]:
  "lexer_skip_line_comment (with_buffer L la k t) =
     apsnd (\<lambda>M. with_buffer M la k t) (lexer_skip_line_comment L)"
  by (simp add: lexer_skip_line_comment_def)

lemma line_update_buffer:
  "(with_buffer L la k t)\<lparr>line := a, column := b\<rparr> = with_buffer (L\<lparr>line := a, column := b\<rparr>) la k t"
  by (simp add: with_buffer_def)

lemma block_comment_loop_buffer [simp]:
  "block_comment_loop (with_buffer L la k t) d =
     apfst (\<lambda>M. with_buffer M la k t) (block_comment_loop L d)"
proof (induction L d rule: block_comment_loop.induct)
  case (1 L depth)
  show ?case
    by (subst block_comment_loop.simps [of L],
        subst block_comment_loop.simps [of "with_buffer L la k t"])
       (use 1 in \<open>auto simp: line_update_buffer\<close>)
qed

lemma skip_block_comment_buffer [simp]:
  "lexer_skip_block_comment (with_buffer L la k t) =
     apsnd (\<lambda>M. with_buffer M la k t) (lexer_skip_block_comment L)"
  by (simp add: lexer_skip_block_comment_def split: prod.splits)

lemma skip_blanks_and_comments_buffer [simp]:
  "skip_blanks_and_comments (with_buffer L la k t) = with_buffer (skip_blanks_and_comments L) la k t"
proof (induction L rule: skip_blanks_and_comments.induct)
  case (1 L)
  show ?case
    by (subst skip_blanks_and_comments.simps [of L],
        subst skip_blanks_and_comments.simps [of "with_buffer L la k t"])
       (use 1 in \<open>auto simp: Let_def\<close>)
qed


lemma read_number_step_buffer [simp]:
  "read_number_step (with_buffer L la k t) f e h b =
     map_loop_ctl (apfst (\<lambda>M. with_buffer M la k t)) (read_number_step L f e h b)"
  by (simp add: read_number_step_def Let_def)

lemma read_number_loop_buffer [simp]:
  "read_number_loop (with_buffer L la k t) f e h b =
     apfst (\<lambda>M. with_buffer M la k t) (read_number_loop L f e h b)"
proof (induction L f e h b rule: read_number_loop.induct)
  case (1 L is_float has_exponent is_hex is_binary)
  show ?case
    by (subst read_number_loop.simps [of L],
        subst read_number_loop.simps [of "with_buffer L la k t"])
       (use 1 in \<open>auto split: loop_ctl.splits\<close>)
qed

lemma number_is_hex_buffer [simp]:
  "number_is_hex (with_buffer L la k t) = number_is_hex L"
  "number_is_binary (with_buffer L la k t) = number_is_binary L"
  by (simp_all add: number_is_hex_def number_is_binary_def)

lemma read_number_buffer [simp]:
  "lexer_read_number (with_buffer L la k t) =
     apsnd (\<lambda>M. with_buffer M la k t) (lexer_read_number L)"
  by (simp add: lexer_read_number_def Let_def)

lemma unicode_escape_loop_buffer [simp]:
  "unicode_escape_loop n (with_buffer L la k t) = with_buffer (unicode_escape_loop n L) la k t"
  by (induction n arbitrary: L) simp_all

lemma read_escape_buffer [simp]:
  "read_escape (with_buffer L la k t) = apsnd (\<lambda>M. with_buffer M la k t) (read_escape L)"
  by (simp add: read_escape_def Let_def)

lemma string_buffer_update_buffer:
  "(with_buffer L la k t)\<lparr>string_buffer := a\<rparr> = with_buffer (L\<lparr>string_buffer := a\<rparr>) la k t"
  by (simp add: with_buffer_def)

lemma read_string_char_buffer [simp]:
  "read_string_char (with_buffer L la k t) = apsnd (\<lambda>M. with_buffer M la k t) (read_string_char L)"
  by (simp add: read_string_char_def)

lemma read_string_loop_buffer [simp]:
  "read_string_loop (with_buffer L la k t) q = with_buffer (read_string_loop L q) la k t"
proof (induction L q rule: read_string_loop.induct)
  case (1 L quote)
  show ?case
    by (subst read_string_loop.simps [of L],
        subst read_string_loop.simps [of "with_buffer L la k t"])
       (use 1 in \<open>auto simp: string_buffer_update_buffer\<close>)
qed

lemma read_string_buffer [simp]:
  "lexer_read_string (with_buffer L la k t) =
     apsnd (\<lambda>M. with_buffer M la k t) (lexer_read_string L)"
  by (simp add: lexer_read_string_def Let_def string_buffer_update_buffer)


lemma read_identifier_loop_buffer [simp]:
  "read_identifier_loop (with_buffer L la k t) = with_buffer (read_identifier_loop L) la k t"
proof (induction L rule: read_identifier_loop.induct)
  case (1 L)
  show ?case
    by (subst read_identifier_loop.simps [of L],
        subst read_identifier_loop.simps [of "with_buffer L la k t"])
       (use 1 in auto)
qed

lemma read_identifier_buffer [simp]:
  "lexer_read_identifier (with_buffer L la k t) =
     apsnd (\<lambda>M. with_buffer M la k t) (lexer_read_identifier L)"
  by (simp add: lexer_read_identifier_def Let_def split: option.splits)

lemma operator_matches_buffer [simp]:
  "operator_matches (with_buffer L la k t) op = operator_matches L op"
  by (simp add: operator_matches_def)

lemma find_best_op_buffer [simp]:
  "find_best_op (with_buffer L la k t) ops best = find_best_op L ops best"
  by (induction ops arbitrary: best) simp_all

lemma advance_times_buffer [simp]:
  "advance_times n (with_buffer L la k t) = with_buffer (advance_times n L) la k t"
  by (induction n arbitrary: L) simp_all

lemma read_operator_buffer [simp]:
  "lexer_read_operator (with_buffer L la k t) =
     apsnd (\<lambda>M. with_buffer M la k t) (lexer_read_operator L)"
  by (simp add: lexer_read_operator_def Let_def split: option.splits)

lemma next_scan_buffer:
  "lexer_next_scan (with_buffer L la k t) =
     apsnd (\<lambda>M. with_buffer M la k t) (lexer_next_scan L)"
  by (simp add: lexer_next_scan_def Let_def)

fun next_tokens :: "nat \<Rightarrow> Lexer \<Rightarrow> Token list" where
  "next_tokens 0 L = []"
| "next_tokens (Suc n) L = fst (lexer_next L) # next_tokens n (snd (lexer_next L))"

lemma next_scan_frame:
  "lookahead (snd (lexer_next_scan L)) = lookahead L"
  "lookahead_pos (snd (lexer_next_scan L)) = lookahead_pos L"
  "current (snd (lexer_next_scan L)) = current L"
proof -
  have "lexer_next_scan L
        = apsnd (\<lambda>M. with_buffer M (lookahead L) (lookahead_pos L) (current L)) (lexer_next_scan L)"
    using next_scan_buffer [of L "lookahead L" "lookahead_pos L" "current L"] by simp
  then have "snd (lexer_next_scan L)
        = with_buffer (snd (lexer_next_scan L)) (lookahead L) (lookahead_pos L) (current L)"
    by (metis snd_apsnd)
  then show "lookahead (snd (lexer_next_scan L)) = lookahead L"
    "lookahead_pos (snd (lexer_next_scan L)) = lookahead_pos L"
    "current (snd (lexer_next_scan L)) = current L"
    by (metis with_buffer_fields(11), metis with_buffer_fields(12), metis with_buffer_fields(13))
qed

lemma next_tokens_empty_buffer:
  "lookahead_pos M = 0 \<Longrightarrow> next_tokens n (with_buffer M la 0 t) = next_tokens n M"
proof (induction n arbitrary: M la t)
  case 0
  show ?case by simp
next
  case (Suc n)
  have a: "lexer_next (with_buffer M la 0 t)
           = apsnd (\<lambda>N. with_buffer N la 0 t) (lexer_next_scan M)"
    by (simp add: lexer_next_def next_scan_buffer)
  have b: "lexer_next M = lexer_next_scan M"
    using Suc.prems by (simp add: lexer_next_def)
  have c: "lookahead_pos (snd (lexer_next_scan M)) = 0"
    using Suc.prems by (simp add: next_scan_frame)
  show ?case
    by (simp add: a b Suc.IH [OF c])
qed


subsection \<open>The cursor only moves forward, over the same source\<close>

definition forward :: "Lexer \<Rightarrow> Lexer \<Rightarrow> bool" where
  "forward L L' = (source L' = source L \<and> position L \<le> position L')"

lemma forward_refl [simp]: "forward L L"
  by (simp add: forward_def)

lemma forward_trans: "forward A B \<Longrightarrow> forward B C \<Longrightarrow> forward A C"
  by (auto simp: forward_def)

lemma forward_advance [simp]: "forward L (lexer_advance L)"
  by (simp add: forward_def position_advance)

lemma forward_error [simp]: "forward L (lexer_error L' m) = forward L L'"
  by (simp add: forward_def)

lemma forward_unicode_escape_loop: "forward L (unicode_escape_loop n L)"
proof (induction n arbitrary: L)
  case 0
  show ?case by simp
next
  case (Suc n)
  show ?case
    using Suc.IH [of "lexer_advance L"] forward_trans [OF forward_advance]
    by auto
qed

lemma forward_read_escape: "forward L (snd (read_escape L))"
proof -
  have a: "forward L (lexer_advance (lexer_advance (lexer_advance L)))"
    by (meson forward_advance forward_trans)
  have b: "forward L (unicode_escape_loop 4 (lexer_advance L))"
    by (meson forward_advance forward_trans forward_unicode_escape_loop)
  show ?thesis
    using a b by (simp add: read_escape_def Let_def)
qed

lemma forward_read_string_char: "forward L (snd (read_string_char L))"
  using forward_trans [OF forward_advance forward_read_escape]
  by (simp add: read_string_char_def)

lemma forward_string_buffer_update [simp]:
  "forward L (L'\<lparr>string_buffer := b\<rparr>) = forward L L'"
  by (simp add: forward_def)

lemma forward_string_buffer_left [simp]:
  "forward (L\<lparr>string_buffer := b\<rparr>) L' = forward L L'"
  by (simp add: forward_def)

lemma forward_read_string_loop: "forward L (read_string_loop L q)"
proof (induction L q rule: read_string_loop.induct)
  case (1 L quote)
  show ?case
    by (subst read_string_loop.simps)
       (use 1 forward_read_string_char [of L] in \<open>auto intro: forward_trans\<close>)
qed


lemma forward_read_string: "forward L (snd (lexer_read_string L))"
proof -
  let ?L1 = "(lexer_advance (lexer_start_token L))\<lparr>string_buffer := []\<rparr>"
  have s: "forward L (lexer_start_token L)"
    by (simp add: forward_def lexer_start_token_def)
  have "forward L ?L1"
    using forward_trans [OF s forward_advance] by simp
  then have a: "forward L (read_string_loop ?L1 q)" for q
    using forward_trans [OF _ forward_read_string_loop] by blast
  then have b: "forward L (lexer_advance (read_string_loop ?L1 q))" for q
    using forward_trans [OF _ forward_advance] by blast
  show ?thesis
    using a b by (simp add: lexer_read_string_def Let_def)
qed

lemma quote_dispatch:
  assumes "c = DQUOTE \<or> c = SQUOTE"
  shows "c \<noteq> NUL" "c \<noteq> NEWLINE" "c \<noteq> CHR '' ''" "c \<noteq> TAB" "c \<noteq> CR" "c \<noteq> CHR ''/''"
    "\<not> isdigit_c c" "c \<noteq> CHR ''.''"
  using assms by (auto simp: isdigit_c_def)

lemma c_str_unclosed: "c_str ''Unclosed string'' = ''Unclosed string''"
  by (simp add: c_str_def)


definition moved :: "Lexer \<Rightarrow> nat \<Rightarrow> Lexer" where
  "moved L n = L\<lparr>position := position L + n, column := column L + n\<rparr>"

lemma moved_0 [simp]: "moved L 0 = L"
  by (simp add: moved_def)

lemma moved_moved: "moved (moved L a) b = moved L (a + b)"
  by (simp add: moved_def add.assoc)

lemma moved_fields [simp]:
  "source (moved L n) = source L" "position (moved L n) = position L + n"
  "start_position (moved L n) = start_position L" "start_line (moved L n) = start_line L"
  "start_column (moved L n) = start_column L" "lookahead_pos (moved L n) = lookahead_pos L"
  by (simp_all add: moved_def)

lemma drop_Cons_nth:
  assumes "drop n xs = c # rest"
  shows "n < length xs" "xs ! n = c" "drop (Suc n) xs = rest"
proof -
  show 1: "n < length xs"
    using assms by (cases "n < length xs") auto
  from assms have "hd (drop n xs) = c" by simp
  with 1 show "xs ! n = c" by (simp add: hd_drop_conv_nth)
  have "drop (Suc n) xs = tl (drop n xs)"
    by (simp add: drop_Suc tl_drop)
  with assms show "drop (Suc n) xs = rest" by simp
qed

lemma peek_of_drop:
  "drop (position L) (source L) = c # rest \<Longrightarrow> lexer_peek L = c"
  using drop_Cons_nth(1,2) [of "position L" "source L" c rest]
  by (simp add: lexer_peek_def char_at_def)

lemma peek_at_1_of_drop:
  assumes "drop (position L) (source L) = c # d # rest"
  shows "lexer_peek_at L 1 = d"
proof -
  have "drop (Suc (position L)) (source L) = d # rest"
    using drop_Cons_nth(3) [OF assms] .
  from drop_Cons_nth(1,2) [OF this] show ?thesis
    by (simp add: lexer_peek_at_def char_at_def)
qed

lemma advance_plain:
  assumes "drop (position L) (source L) = c # rest" "c \<noteq> NUL" "c \<noteq> NEWLINE"
  shows "lexer_advance L = moved L (Suc 0)"
    and "drop (position (moved L (Suc 0))) (source (moved L (Suc 0))) = rest"
proof -
  have "lexer_peek L = c" using assms(1) by (rule peek_of_drop)
  then show "lexer_advance L = moved L (Suc 0)"
    using assms by (simp add: lexer_advance_def lexer_peek_def moved_def Let_def)
  show "drop (position (moved L (Suc 0))) (source (moved L (Suc 0))) = rest"
    using drop_Cons_nth(3) [OF assms(1)] by simp
qed

lemma lexer_error_start_fields [simp]:
  "start_position (lexer_error L m) = start_position L"
  "start_line (lexer_error L m) = start_line L"
  "start_column (lexer_error L m) = start_column L"
  "has_error (lexer_error L m)"
  by (simp_all add: lexer_error_def)

lemma c_str_no_NUL: "NUL \<notin> set s \<Longrightarrow> c_str s = s"
  by (auto simp: c_str_def takeWhile_eq_all_conv)




subsection \<open>The string scan and the text\<close>

lemma unread_peek: "lexer_peek L = (case unread L of [] \<Rightarrow> NUL | c # _ \<Rightarrow> c)"
proof (cases "position L < length (source L)")
  case True
  then have "drop (position L) (source L) = source L ! position L # drop (Suc (position L)) (source L)"
    by (simp add: Cons_nth_drop_Suc)
  then show ?thesis
    using True by (simp add: unread_def c_str_def lexer_peek_def char_at_def)
next
  case False
  then show ?thesis
    by (simp add: unread_def c_str_def lexer_peek_def char_at_def)
qed

lemma unread_Nil: "(unread L = []) = (lexer_peek L = NUL)"
proof (cases "position L < length (source L)")
  case True
  then have "drop (position L) (source L) = source L ! position L # drop (Suc (position L)) (source L)"
    by (simp add: Cons_nth_drop_Suc)
  then show ?thesis
    using True by (simp add: unread_def c_str_def lexer_peek_def char_at_def)
next
  case False
  then show ?thesis
    by (simp add: unread_def c_str_def lexer_peek_def char_at_def)
qed

lemma unread_advance: "unread (lexer_advance L) = tl (unread L)"
proof (cases "lexer_peek L = NUL")
  case True
  then have "lexer_advance L = L" by (simp add: lexer_advance_def lexer_peek_def)
  with True show ?thesis by (simp add: unread_Nil [symmetric])
next
  case False
  then have r: "position L < length (source L)" by (rule peek_not_NUL_in_range)
  then have d: "drop (position L) (source L) = source L ! position L # drop (Suc (position L)) (source L)"
    by (simp add: Cons_nth_drop_Suc)
  have p: "position (lexer_advance L) = Suc (position L)"
    using False by (simp add: position_advance)
  show ?thesis
    using False r by (simp add: unread_def p d c_str_def lexer_peek_def char_at_def)
qed

lemma unread_error [simp]: "unread (lexer_error L m) = unread L"
  by (simp add: unread_def)

lemma unread_string_buffer_update [simp]: "unread (L\<lparr>string_buffer := b\<rparr>) = unread L"
  by (simp add: unread_def)

lemma unread_start_token [simp]: "unread (lexer_start_token L) = unread L"
  by (simp add: unread_def lexer_start_token_def)

lemma string_buffer_advance [simp]: "string_buffer (lexer_advance L) = string_buffer L"
  by (simp add: lexer_advance_def Let_def)

lemma string_buffer_error [simp]: "string_buffer (lexer_error L m) = string_buffer L"
  by (simp add: lexer_error_def)

lemma string_buffer_unicode_escape_loop [simp]:
  "string_buffer (unicode_escape_loop k L) = string_buffer L"
  by (induction k arbitrary: L) simp_all

lemma string_buffer_read_escape [simp]: "string_buffer (snd (read_escape L)) = string_buffer L"
  by (simp add: read_escape_def Let_def)

lemma string_buffer_read_string_char [simp]:
  "string_buffer (snd (read_string_char L)) = string_buffer L"
  by (simp add: read_string_char_def)

lemma unread_unicode_escape_loop:
  "unread (unicode_escape_loop k L) = drop (unicode_escape_length k (unread L)) (unread L)"
proof (induction k arbitrary: L)
  case 0
  show ?case by simp
next
  case (Suc k)
  show ?case
  proof (cases "unread L")
    case Nil
    then have "lexer_peek L = NUL" by (simp add: unread_Nil)
    then have "\<not> isxdigit_c (lexer_peek L)" by (auto dest: isxdigit_not_NUL)
    with Nil show ?thesis by (simp add: unread_advance)
  next
    case (Cons c s)
    then have "lexer_peek L = c" by (simp add: unread_peek)
    with Cons Suc.IH [of "lexer_advance L"] show ?thesis
      by (simp add: unread_advance)
  qed
qed

lemma unread_read_escape:
  "unread (snd (read_escape L)) = drop (escape_length (unread L)) (unread L)"
proof (cases "unread L")
  case Nil
  then have p: "lexer_peek L = NUL" by (simp add: unread_Nil)
  then have "lexer_advance L = L" by (simp add: lexer_advance_def lexer_peek_def)
  with p Nil show ?thesis
    by (simp add: read_escape_def Let_def escape_length_def)
next
  case (Cons c s)
  then have p: "lexer_peek L = c" by (simp add: unread_peek)
  have a: "unread (lexer_advance L) = s" using Cons by (simp add: unread_advance)
  have x: "unread (lexer_advance (lexer_advance (lexer_advance L))) = drop (min 2 (length s)) s"
    using a by (cases s; cases "tl s") (simp_all add: unread_advance)
  show ?thesis
    using Cons p a x unread_unicode_escape_loop [of 4 "lexer_advance L"]
    by (simp add: read_escape_def Let_def escape_length_def)
qed

lemma unread_read_string_char:
  assumes "unread L = c # t"
  shows "unread (snd (read_string_char L)) = after_content c t"
proof -
  have p: "lexer_peek L = c" using assms by (simp add: unread_peek)
  have a: "unread (lexer_advance L) = t" using assms by (simp add: unread_advance)
  show ?thesis
    using p a unread_read_escape [of "lexer_advance L"]
    by (simp add: read_string_char_def after_content_def)
qed

lemma read_string_loop_closing:
  "q \<noteq> NUL \<Longrightarrow>
   (lexer_peek (read_string_loop L q) = q)
   = closing_quote_reached q (length (string_buffer L)) (unread L)"
proof (induction L q rule: read_string_loop.induct)
  case (1 L quote)
  note assms = "1.prems"
  show ?case
  proof (cases "unread L")
    case Nil
    then have "lexer_peek L = NUL" by (simp add: unread_Nil)
    with Nil assms show ?thesis
      by (subst read_string_loop.simps) auto
  next
    case (Cons c t)
    then have p: "lexer_peek L = c" by (simp add: unread_peek)
    have cn: "c \<noteq> NUL" using Cons unread_Nil [of L] p by auto
    note u = unread_read_string_char [OF Cons]
    show ?thesis
    proof (cases "c = quote")
      case True
      with p Cons show ?thesis by (subst read_string_loop.simps) simp
    next
      case False
      show ?thesis
      proof (cases "MAX_STRING_LENGTH - 1 \<le> length (string_buffer L)")
        case True
        have "lexer_peek (read_string_loop L quote) = lexer_peek (snd (read_string_char L))"
          using p False cn True by (subst read_string_loop.simps) simp
        also have "\<dots> = (case after_content c t of [] \<Rightarrow> NUL | d # _ \<Rightarrow> d)"
          by (simp add: unread_peek u)
        finally show ?thesis
          using Cons False True assms by (auto split: list.splits)
      next
        case long: False
        let ?L' = "(snd (read_string_char L))
                     \<lparr>string_buffer := string_buffer (snd (read_string_char L)) @
                                        [fst (read_string_char L)]\<rparr>"
        have "read_string_loop L quote = read_string_loop ?L' quote"
          using p False cn long by (subst read_string_loop.simps) simp
        moreover have "(lexer_peek (read_string_loop ?L' quote) = quote)
            = closing_quote_reached quote (length (string_buffer ?L')) (unread ?L')"
          using "1.IH" p False cn long assms by simp
        ultimately show ?thesis
          using Cons False long u by simp
      qed
    qed
  qed
qed


lemma after_content_subset: "set (after_content c t) \<subseteq> set t"
  by (auto simp: after_content_def dest: in_set_dropD)

lemma no_quote_not_reached: "q \<notin> set s \<Longrightarrow> \<not> closing_quote_reached q k s"
proof (induction q k s rule: closing_quote_reached.induct)
  case (1 q k)
  show ?case by simp
next
  case (2 q k c t)
  then have "q \<notin> set (after_content c t)"
    using after_content_subset [of c t] by auto
  with 2 show ?case by (auto split: list.splits)
qed

lemma newline_is_content:
  "q = DQUOTE \<or> q = SQUOTE \<Longrightarrow>
   closing_quote_reached q k (NEWLINE # t) = closing_quote_reached q k (CHR ''a'' # t)"
  by (auto simp: after_content_def)

lemma unclosed_string_examples:
  "tok_type (fst (lexer_next (lexer_create ([DQUOTE] @ ''abc'' @ [BACKSLASH, DQUOTE])))) = TOKEN_ERROR"
  "tok_value (fst (lexer_next (lexer_create ([DQUOTE] @ ''abc'' @ [BACKSLASH, DQUOTE]))))
     = Some ''Unclosed string''"
  "tok_type (fst (lexer_next (lexer_create ([DQUOTE] @ ''a'' @ [NEWLINE] @ ''b'')))) = TOKEN_ERROR"
  by code_simp+

subsection \<open>The number scan and the text\<close>

lemma offending_mark_examples:
  "offending_mark False False ''1.2.3'' = Some 3"
  "offending_mark False False ''1.5e3e4'' = Some 5"
  "offending_mark False False ''1e+5e3'' = Some 4"
  "offending_mark False False ''1.2e3.4'' = Some 5"
  "offending_mark False False ''.5.5'' = Some 2"
  "offending_mark False False ''1e5.3'' = Some 3"
  "offending_mark False False ''1.2e-3'' = None"
  "offending_mark False False ''0x1.2.3'' = None"
  by (simp_all add: isdigit_c_def)

lemma offending_mark_text:
  "offending_mark f e str = Some k \<Longrightarrow>
   k < length str \<and> (str ! k = CHR ''.'' \<or> str ! k = CHR ''e'' \<or> str ! k = CHR ''E'') \<and>
   NUL \<notin> set (take k str)"
proof (induction f e str arbitrary: k rule: offending_mark.induct)
  case (1 f e)
  then show ?case by simp
next
  case (2 f e c s)
  show ?case
  proof (cases "c = CHR ''.''")
    case True
    with 2 show ?thesis by (auto split: if_splits)
  next
    case nd: False
    show ?thesis
    proof (cases "c = CHR ''e'' \<or> c = CHR ''E''")
      case True
      show ?thesis
      proof (cases e)
        case True
        with \<open>c = CHR ''e'' \<or> c = CHR ''E''\<close> nd "2.prems" show ?thesis by auto
      next
        case ne: False
        show ?thesis
        proof (cases s)
          case Nil
          with True nd ne "2.prems" show ?thesis by auto
        next
          case (Cons sign s')
          show ?thesis
          proof (cases "sign = CHR ''+'' \<or> sign = CHR ''-''")
            case sg: True
            with True nd ne Cons "2.prems" obtain k' where
              k': "offending_mark True True s' = Some k'" "k = k' + 2"
              by auto
            from "2.IH"(2) [OF nd True ne Cons sg k'(1)] True sg Cons k'(2) show ?thesis
              by auto
          next
            case sg: False
            with True nd ne Cons "2.prems" obtain k' where
              k': "offending_mark True True s = Some k'" "k = Suc k'"
              by auto
            from "2.IH"(3) [OF nd True ne Cons sg k'(1)] True k'(2) show ?thesis
              by auto
          qed
        qed
      qed
    next
      case False
      with nd "2.prems" have dg: "isdigit_c c" by (auto split: if_splits)
      with nd False "2.prems" obtain k' where
        k': "offending_mark f e s = Some k'" "k = Suc k'"
        by auto
      from "2.IH"(4) [OF nd False dg k'(1)] dg k'(2) show ?thesis
        by (auto dest: isdigit_not_NUL)
    qed
  qed
qed


lemma scan_to_offending_mark:
  "offending_mark f e str = Some k \<Longrightarrow> drop (position L) (source L) = str \<Longrightarrow> (e \<longrightarrow> f) \<Longrightarrow>
   \<exists>e'. read_number_loop L f e False False
        = (lexer_error (moved L k) ''Invalid number format'', True, e')"
proof (induction f e str arbitrary: L k rule: offending_mark.induct)
  case (1 f e)
  then show ?case by simp
next
  case (2 f e c s)
  note dr = "2.prems"(2)
  note inv = "2.prems"(3)
  have pk: "lexer_peek L = c" using dr by (rule peek_of_drop)
  show ?case
  proof (cases "c = CHR ''.''")
    case True
    then have cn: "c \<noteq> NUL" "c \<noteq> NEWLINE" by simp_all
    note adv = advance_plain [OF dr cn]
    show ?thesis
    proof (cases "f \<or> e")
      case fe: True
      with True "2.prems"(1) have k: "k = 0" by simp
      from fe inv have f by auto
      have "read_number_step L f e False False
            = Break (lexer_error L ''Invalid number format'', f, e)"
        using True fe pk by (simp add: read_number_step_def Let_def)
      then show ?thesis
        using k \<open>f\<close> by (subst read_number_loop.simps) simp
    next
      case fe: False
      with True "2.prems"(1) obtain k' where
        k': "offending_mark True e s = Some k'" "k = Suc k'"
        by auto
      have step: "read_number_step L f e False False = Continue (moved L (Suc 0), True, e)"
        using True fe pk adv(1) by (simp add: read_number_step_def Let_def)
      from "2.IH"(1) [OF True fe k'(1), of "moved L (Suc 0)"] adv(2)
      obtain e' where "read_number_loop (moved L (Suc 0)) True e False False
          = (lexer_error (moved (moved L (Suc 0)) k') ''Invalid number format'', True, e')"
        by auto
      then show ?thesis
        using step k'(2) by (subst read_number_loop.simps) (simp add: moved_moved)
    qed
  next
    case nd: False
    show ?thesis
    proof (cases "c = CHR ''e'' \<or> c = CHR ''E''")
      case ex: True
      then have cn: "c \<noteq> NUL" "c \<noteq> NEWLINE" by auto
      note adv = advance_plain [OF dr cn]
      show ?thesis
      proof (cases e)
        case True
        with ex nd "2.prems"(1) have k: "k = 0" by auto
        from True inv have f by simp
        have "read_number_step L f e False False
              = Break (lexer_error L ''Invalid number format'', f, e)"
          using ex nd True pk by (auto simp: read_number_step_def Let_def)
        then show ?thesis
          using k \<open>f\<close> by (subst read_number_loop.simps) simp
      next
        case ne: False
        show ?thesis
        proof (cases s)
          case Nil
          with ex nd ne "2.prems"(1) show ?thesis by auto
        next
          case (Cons sign s')
          have pk1: "lexer_peek_at L 1 = sign"
            using dr Cons by (intro peek_at_1_of_drop) simp
          show ?thesis
          proof (cases "sign = CHR ''+'' \<or> sign = CHR ''-''")
            case sg: True
            with ex nd ne Cons "2.prems"(1) obtain k' where
              k': "offending_mark True True s' = Some k'" "k = k' + 2"
              by auto
            have sn: "sign \<noteq> NUL" "sign \<noteq> NEWLINE" using sg by auto
            have dr1: "drop (position (moved L (Suc 0))) (source (moved L (Suc 0))) = sign # s'"
              using adv(2) Cons by simp
            note adv2 = advance_plain [OF dr1 sn]
            have step: "read_number_step L f e False False
                        = Continue (moved (moved L (Suc 0)) (Suc 0), True, True)"
              using ex nd ne sg pk pk1 adv(1) adv2(1)
              by (auto simp: read_number_step_def Let_def)
            from "2.IH"(2) [OF nd ex ne Cons sg k'(1), of "moved (moved L (Suc 0)) (Suc 0)"] adv2(2)
            obtain e' where "read_number_loop (moved (moved L (Suc 0)) (Suc 0)) True True False False
                = (lexer_error (moved (moved (moved L (Suc 0)) (Suc 0)) k')
                     ''Invalid number format'', True, e')"
              by auto
            then show ?thesis
              using step k'(2) by (subst read_number_loop.simps) (simp add: moved_moved)
          next
            case sg: False
            with ex nd ne Cons "2.prems"(1) obtain k' where
              k': "offending_mark True True s = Some k'" "k = Suc k'"
              by auto
            have step: "read_number_step L f e False False
                        = Continue (moved L (Suc 0), True, True)"
              using ex nd ne sg pk pk1 adv(1)
              by (auto simp: read_number_step_def Let_def)
            from "2.IH"(3) [OF nd ex ne Cons sg k'(1), of "moved L (Suc 0)"] adv(2)
            obtain e' where "read_number_loop (moved L (Suc 0)) True True False False
                = (lexer_error (moved (moved L (Suc 0)) k') ''Invalid number format'', True, e')"
              by auto
            then show ?thesis
              using step k'(2) by (subst read_number_loop.simps) (simp add: moved_moved)
          qed
        qed
      qed
    next
      case nx: False
      with nd "2.prems"(1) have dg: "isdigit_c c" by (auto split: if_splits)
      with nd nx "2.prems"(1) obtain k' where
        k': "offending_mark f e s = Some k'" "k = Suc k'"
        by auto
      have cn: "c \<noteq> NUL" "c \<noteq> NEWLINE" using dg by (auto simp: isdigit_c_def)
      note adv = advance_plain [OF dr cn]
      have step: "read_number_step L f e False False = Continue (moved L (Suc 0), f, e)"
        using nd nx dg pk adv(1) by (auto simp: read_number_step_def Let_def)
      from "2.IH"(4) [OF nd nx dg k'(1), of "moved L (Suc 0)"] adv(2) inv
      obtain e' where "read_number_loop (moved L (Suc 0)) f e False False
          = (lexer_error (moved (moved L (Suc 0)) k') ''Invalid number format'', True, e')"
        by auto
      then show ?thesis
        using step k'(2) by (subst read_number_loop.simps) (simp add: moved_moved)
    qed
  qed
qed


lemma offending_mark_no_prefix:
  assumes "offending_mark False False (drop (position L) (source L)) = Some k"
  shows "\<not> number_is_hex L" "\<not> number_is_binary L"
proof -
  obtain c s where cs: "drop (position L) (source L) = c # s"
    using assms by (cases "drop (position L) (source L)") auto
  have pk: "lexer_peek L = c" using cs by (rule peek_of_drop)
  have "\<not> (c = CHR ''0'' \<and> lexer_peek_at L 1 \<in> {CHR ''x'', CHR ''X'', CHR ''b'', CHR ''B''})"
  proof (cases s)
    case Nil
    then have "drop (Suc (position L)) (source L) = []"
      using drop_Cons_nth(3) [OF cs] by simp
    then have "lexer_peek_at L 1 = NUL"
      by (simp add: lexer_peek_at_def char_at_def)
    then show ?thesis by simp
  next
    case (Cons d s')
    then have "lexer_peek_at L 1 = d"
      using cs by (intro peek_at_1_of_drop) simp
    with assms cs Cons show ?thesis
      by (auto simp: isdigit_c_def)
  qed
  with pk show "\<not> number_is_hex L" "\<not> number_is_binary L"
    by (auto simp: number_is_hex_def number_is_binary_def)
qed


section \<open>Claims about the lexer\<close>

text \<open>
  C5 (as stated) asks for an \<open>Unclosed string\<close> error also when a raw newline stands
  before the closing quote. \<open>lexer_read_string\<close> has no test for a newline: the loop
  runs until the quote or the end of input, so a literal that spans a line is an
  ordinary string token. Counterexample: \<^verbatim>\<open>"a<newline>b"\<close>.
\<close>

theorem C5_counterexample:
  "tok_type (fst (lexer_next (lexer_create ([DQUOTE] @ ''a'' @ [NEWLINE] @ ''b'' @ [DQUOTE]))))
     = TOKEN_STRING \<and>
   tok_value (fst (lexer_next (lexer_create ([DQUOTE] @ ''a'' @ [NEWLINE] @ ''b'' @ [DQUOTE]))))
     = Some (''a'' @ [NEWLINE] @ ''b'') \<and>
   \<not> has_error (snd (lexer_next (lexer_create ([DQUOTE] @ ''a'' @ [NEWLINE] @ ''b'' @ [DQUOTE]))))"
  by code_simp

text \<open>
  C5 (amended). When the cursor is at an opening quote \<open>q\<close> (no token buffered),
  \<open>lexer_next\<close> returns a string token if reading the text after that quote reaches
  the closing quote, and otherwise records the error \<open>Unclosed string\<close> and returns
  an error token with that text. The closing quote is not reached when the input ends
  first, the bytes of escape sequences being skipped (so \<^verbatim>\<open>"abc\<close> and \<^verbatim>\<open>"abc\"\<close> at
  the end of the input both give the error), or when the 4096th content character is
  not directly followed by the quote. A raw newline is not among the cases: it is
  content like any other byte.
\<close>

theorem C5_unclosed_string_iff_closing_quote_not_reached:
  assumes la: "lookahead_pos L = 0"
    and q: "lexer_peek L = q"
    and quote: "q = DQUOTE \<or> q = SQUOTE"
  shows "(closing_quote_reached q 0 (c_str (drop (Suc (position L)) (source L))) \<longrightarrow>
            tok_type (fst (lexer_next L)) = TOKEN_STRING) \<and>
         (\<not> closing_quote_reached q 0 (c_str (drop (Suc (position L)) (source L))) \<longrightarrow>
            tok_type (fst (lexer_next L)) = TOKEN_ERROR \<and>
            tok_value (fst (lexer_next L)) = Some ''Unclosed string'' \<and>
            has_error (snd (lexer_next L)) \<and>
            error_msg (snd (lexer_next L)) = ''Unclosed string'')"
proof -
  note d = quote_dispatch [OF quote]
  have skip: "skip_blanks_and_comments L = L"
    using d by (intro skip_blanks_and_comments_id) (simp_all add: q)
  have disp: "lexer_next_scan L = lexer_read_string L"
    using d quote by (simp add: lexer_next_scan_def skip Let_def q)
  let ?S = "lexer_start_token L"
  let ?L1 = "(lexer_advance ?S)\<lparr>string_buffer := []\<rparr>"
  let ?L2 = "read_string_loop ?L1 q"
  let ?txt = "c_str (drop (Suc (position L)) (source L))"
  have ps: "lexer_peek ?S = q"
    using q by (simp add: lexer_peek_def lexer_start_token_def)
  have p1: "position ?L1 = Suc (position L)" "source ?L1 = source L"
    using ps d(1) by (simp_all add: position_advance lexer_start_token_def)
  have u1: "unread ?L1 = ?txt"
    by (simp add: unread_def p1)
  have closing: "(lexer_peek ?L2 = q) = closing_quote_reached q 0 ?txt"
    using read_string_loop_closing [OF d(1), of ?L1] u1 by simp
  show ?thesis
  proof (cases "closing_quote_reached q 0 ?txt")
    case True
    with closing have "lexer_peek ?L2 = q" by simp
    then have "tok_type (fst (lexer_read_string L)) = TOKEN_STRING"
      using q by (simp add: lexer_read_string_def Let_def ps lexer_make_token_def)
    with True la show ?thesis
      by (simp add: lexer_next_def disp)
  next
    case False
    with closing have "lexer_peek ?L2 \<noteq> q" by simp
    then have rd: "lexer_read_string L =
       ((lexer_make_token (lexer_error ?L2 ''Unclosed string'') TOKEN_ERROR
           (Some ''Unclosed string''))\<lparr>tok_length := 0\<rparr>,
        lexer_error ?L2 ''Unclosed string'')"
      using q by (simp add: lexer_read_string_def Let_def ps)
    show ?thesis
      using la False
      by (simp add: lexer_next_def disp rd lexer_make_token_def lexer_error_def c_str_unclosed)
  qed
qed

theorem C5_witness:
  "lookahead_pos (lexer_create ([DQUOTE] @ ''abc'')) = 0 \<and>
   lexer_peek (lexer_create ([DQUOTE] @ ''abc'')) = DQUOTE \<and>
   \<not> closing_quote_reached DQUOTE 0
        (c_str (drop (Suc (position (lexer_create ([DQUOTE] @ ''abc''))))
                  (source (lexer_create ([DQUOTE] @ ''abc''))))) \<and>
   tok_type (fst (lexer_next (lexer_create ([DQUOTE] @ ''abc'')))) = TOKEN_ERROR \<and>
   tok_value (fst (lexer_next (lexer_create ([DQUOTE] @ ''abc'')))) = Some ''Unclosed string'' \<and>
   has_error (snd (lexer_next (lexer_create ([DQUOTE] @ ''abc'')))) \<and>
   error_msg (snd (lexer_next (lexer_create ([DQUOTE] @ ''abc'')))) = ''Unclosed string''"
proof -
  have h: "lookahead_pos (lexer_create ([DQUOTE] @ ''abc'')) = 0"
    "lexer_peek (lexer_create ([DQUOTE] @ ''abc'')) = DQUOTE"
    "DQUOTE = DQUOTE \<or> DQUOTE = SQUOTE"
    by (simp_all add: lexer_create_def lexer_peek_def char_at_def)
  have n: "\<not> closing_quote_reached DQUOTE 0
        (c_str (drop (Suc (position (lexer_create ([DQUOTE] @ ''abc''))))
                  (source (lexer_create ([DQUOTE] @ ''abc'')))))"
    by (simp add: lexer_create_def c_str_def after_content_def MAX_STRING_LENGTH_def)
  from C5_unclosed_string_iff_closing_quote_not_reached [OF h] h n show ?thesis
    by simp
qed

text \<open>
  C6 (as stated) says that after a second \<open>.\<close> or a second exponent marker the scan goes
  on to the end of the malformed run. The loop of \<open>lexer_read_number\<close> reports the error
  and leaves with \<^verbatim>\<open>break\<close>: on \<open>1.2.3\<close> the token is \<open>1.2\<close>, the cursor stops
  at the second dot, and \<open>.3\<close> is the next token.
\<close>

theorem C6_counterexample:
  "tok_value (fst (lexer_next (lexer_create ''1.2.3''))) = Some ''1.2'' \<and>
   tok_length (fst (lexer_next (lexer_create ''1.2.3''))) = 3 \<and>
   position (snd (lexer_next (lexer_create ''1.2.3''))) = 3 \<and>
   error_msg (snd (lexer_next (lexer_create ''1.2.3''))) = ''Invalid number format'' \<and>
   tok_value (fst (lexer_next (snd (lexer_next (lexer_create ''1.2.3''))))) = Some ''.3''"
  by code_simp

text \<open>
  C6 (amended). When a numeric literal starts at the cursor (no token buffered) and
  the reading of its decimal text meets, \<open>k\<close> bytes in, a dot after a dot or an
  exponent letter, or an exponent letter after an exponent letter (signed exponents
  included), \<open>lexer_next\<close> records \<open>Invalid number format\<close> and stops there: the
  token is a float token whose text is the \<open>k\<close> bytes before the mark, and the cursor
  is left on the mark, which starts the next token.
\<close>

theorem C6_malformed_number_stops_at_offending_mark:
  assumes la: "lookahead_pos L = 0"
    and start: "isdigit_c (lexer_peek L) \<or>
                (lexer_peek L = CHR ''.'' \<and> isdigit_c (lexer_peek_at L 1))"
    and off: "offending_mark False False (drop (position L) (source L)) = Some k"
  shows "tok_type (fst (lexer_next L)) = TOKEN_NUMBER_FLOAT \<and>
         tok_value (fst (lexer_next L)) = Some (take k (drop (position L) (source L))) \<and>
         tok_length (fst (lexer_next L)) = int k \<and>
         position (snd (lexer_next L)) = position L + k \<and>
         (lexer_peek (snd (lexer_next L)) = CHR ''.'' \<or>
          lexer_peek (snd (lexer_next L)) = CHR ''e'' \<or>
          lexer_peek (snd (lexer_next L)) = CHR ''E'') \<and>
         has_error (snd (lexer_next L)) \<and>
         error_msg (snd (lexer_next L)) = ''Invalid number format''"
proof -
  let ?str = "drop (position L) (source L)"
  have pn: "lexer_peek L \<noteq> NUL" "lexer_peek L \<noteq> NEWLINE" "lexer_peek L \<noteq> CHR '' ''"
    "lexer_peek L \<noteq> TAB" "lexer_peek L \<noteq> CR" "lexer_peek L \<noteq> CHR ''/''"
    using start by (auto simp: isdigit_c_def)
  have skip: "skip_blanks_and_comments L = L"
    using pn by (intro skip_blanks_and_comments_id) simp_all
  have disp: "lexer_next_scan L = lexer_read_number L"
    using pn start by (simp add: lexer_next_scan_def skip Let_def)
  let ?S = "lexer_start_token L"
  have S: "source ?S = source L" "position ?S = position L" "start_position ?S = position L"
    "start_line ?S = line L" "start_column ?S = column L"
    by (simp_all add: lexer_start_token_def)
  have offS: "offending_mark False False (drop (position ?S) (source ?S)) = Some k"
    using off by (simp add: S)
  note nohex = offending_mark_no_prefix [OF offS]
  from scan_to_offending_mark [OF off, of ?S] obtain e' where
    loop: "read_number_loop ?S False False False False
           = (lexer_error (moved ?S k) ''Invalid number format'', True, e')"
    by (auto simp: S)
  note facts = offending_mark_text [OF off]
  have rd: "lexer_read_number L =
      (lexer_make_number_token (lexer_error (moved ?S k) ''Invalid number format'')
         (take k ?str) True False False,
       lexer_error (moved ?S k) ''Invalid number format'')"
    using nohex by (simp add: lexer_read_number_def Let_def loop S)
  have cs: "c_str (take k ?str) = take k ?str"
    using facts by (intro c_str_no_NUL) simp
  have msg: "c_str ''Invalid number format'' = ''Invalid number format''"
    by (simp add: c_str_def)
  have "position L + k < length (source L)"
    using facts by auto
  then have pk: "lexer_peek (lexer_error (moved ?S k) ''Invalid number format'') = ?str ! k"
    by (simp add: lexer_peek_def char_at_def S)
  show ?thesis
    using la cs facts pk
    by (simp add: lexer_next_def disp rd lexer_make_number_token_def lexer_make_token_def
          S lexer_error_def msg moved_def)
qed

theorem C6_witness:
  "lookahead_pos (lexer_create ''1e+5e3'') = 0 \<and>
   isdigit_c (lexer_peek (lexer_create ''1e+5e3'')) \<and>
   offending_mark False False
     (drop (position (lexer_create ''1e+5e3'')) (source (lexer_create ''1e+5e3''))) = Some 4 \<and>
   tok_type (fst (lexer_next (lexer_create ''1e+5e3''))) = TOKEN_NUMBER_FLOAT \<and>
   tok_value (fst (lexer_next (lexer_create ''1e+5e3''))) = Some ''1e+5'' \<and>
   tok_length (fst (lexer_next (lexer_create ''1e+5e3''))) = 4 \<and>
   position (snd (lexer_next (lexer_create ''1e+5e3''))) = 4 \<and>
   lexer_peek (snd (lexer_next (lexer_create ''1e+5e3''))) = CHR ''e'' \<and>
   has_error (snd (lexer_next (lexer_create ''1e+5e3''))) \<and>
   error_msg (snd (lexer_next (lexer_create ''1e+5e3''))) = ''Invalid number format''"
proof -
  have h: "lookahead_pos (lexer_create ''1e+5e3'') = 0"
    "isdigit_c (lexer_peek (lexer_create ''1e+5e3'')) \<or>
     (lexer_peek (lexer_create ''1e+5e3'') = CHR ''.'' \<and>
      isdigit_c (lexer_peek_at (lexer_create ''1e+5e3'') 1))"
    "offending_mark False False
       (drop (position (lexer_create ''1e+5e3'')) (source (lexer_create ''1e+5e3''))) = Some 4"
    by (simp_all add: lexer_create_def lexer_peek_def char_at_def isdigit_c_def)
  have d: "isdigit_c (lexer_peek (lexer_create ''1e+5e3''))"
    by (simp add: lexer_create_def lexer_peek_def char_at_def isdigit_c_def)
  have ps: "position (lexer_create ''1e+5e3'') = 0" "source (lexer_create ''1e+5e3'') = ''1e+5e3''"
    by (simp_all add: lexer_create_def)
  have p: "lexer_peek (snd (lexer_next (lexer_create ''1e+5e3''))) = CHR ''e''"
    by code_simp
  from C6_malformed_number_stops_at_offending_mark [OF h] h(1,3) d p show ?thesis
    by (simp add: ps)
qed

text \<open>
  C7 fails on the code. \<open>lexer_advance\<close> already counts a newline; the loop of
  \<open>lexer_skip_block_comment\<close> counts it a second time before calling it. After the
  comment \<^verbatim>\<open>/*<newline>*/\<close> one newline was consumed, yet \<open>line\<close> is 3 and the
  identifier that follows is reported on line 3.
\<close>

theorem C7_block_comment_newline_counted_twice:
  "tok_type (fst (lexer_next (lexer_create (''/*'' @ [NEWLINE] @ ''*/x'')))) = TOKEN_IDENTIFIER \<and>
   tok_line (fst (lexer_next (lexer_create (''/*'' @ [NEWLINE] @ ''*/x'')))) = 3 \<and>
   line (snd (lexer_next (lexer_create (''/*'' @ [NEWLINE] @ ''*/x'')))) = 3 \<and>
   position (snd (lexer_next (lexer_create (''/*'' @ [NEWLINE] @ ''*/x'')))) = 6 \<and>
   length (filter (\<lambda>c. c = NEWLINE) (take 6 (''/*'' @ [NEWLINE] @ ''*/x''))) = 1"
  by code_simp

text \<open>
  C8. For every two-character operator of the operator table, when its two bytes stand
  at the cursor (and no token is buffered), \<open>lexer_next\<close> returns that operator as one
  \<open>TOKEN_OPERATOR\<close> token of length 2, starting at the cursor, and moves the cursor
  past both bytes: it is never split into two one-character tokens.
\<close>

theorem C8_two_character_operator_single_token:
  assumes tab: "(op, 2) \<in> set operator_table"
    and la: "lookahead_pos L = 0"
    and c0: "lexer_peek_at L 0 = op ! 0"
    and c1: "lexer_peek_at L 1 = op ! 1"
  shows "fst (lexer_next L) =
           \<lparr>tok_type = TOKEN_OPERATOR, tok_value = Some op, int_val = 0, float_val = 0,
            tok_line = line L, tok_column = column L, tok_length = 2\<rparr> \<and>
         position (snd (lexer_next L)) = position L + 2"
proof -
  from tab have ops: "op \<in> {''=='', ''!='', ''<='', ''>='', ''&&'', ''||'',
                           ''+='', ''-='', ''*='', ''/='', ''%=''}"
    by (auto simp: operator_table_def)
  note fb = two_char_first_byte [OF ops]
  have p0: "lexer_peek L = op ! 0" using c0 by (simp add: peek_at_0)
  note d = first_byte_dispatch [OF fb(1)]
  have sec: "op ! 1 \<noteq> CHR ''/''" "op ! 1 \<noteq> CHR ''*''" "op ! 1 \<noteq> NUL" "op ! 1 \<noteq> NEWLINE"
    using fb(2) by auto
  have skip: "skip_blanks_and_comments L = L"
    using d sec c1 by (intro skip_blanks_and_comments_id) (simp_all add: p0)
  let ?S = "lexer_start_token L"
  have s0: "lexer_peek_at ?S 0 = op ! 0" and s1: "lexer_peek_at ?S 1 = op ! 1"
    using c0 c1 by (simp_all add: lexer_peek_at_def lexer_start_token_def)
  have best: "find_best_op ?S operator_table None = Some (op, 2)"
    by (rule two_char_best_op [OF ops s0 s1])
  have adv: "advance_times 2 ?S = ?S\<lparr>position := position ?S + 2, column := column ?S + 2\<rparr>"
    using d sec s0 s1 by (intro advance_two) (simp_all add: peek_at_0 [symmetric] del: One_nat_def)
  have rd: "lexer_read_operator L =
      (lexer_make_token (advance_times 2 ?S) TOKEN_OPERATOR (Some op), advance_times 2 ?S)"
    by (simp add: lexer_read_operator_def best Let_def)
  have inl: "list_ex (\<lambda>op. lexer_peek_at L 0 = hd (fst op)) operator_table"
    by (rule first_byte_in_table [OF fb(1) c0])
  have disp: "lexer_next_scan L = lexer_read_operator L"
    using d inl by (simp add: lexer_next_scan_def skip Let_def p0)
  show ?thesis
    unfolding lexer_next_def disp rd adv
    using la by (simp add: lexer_make_token_def lexer_start_token_def fb(3))
qed

theorem C8_witness:
  "(''<='', 2) \<in> set operator_table \<and>
   lookahead_pos (lexer_create ''<= 3'') = 0 \<and>
   lexer_peek_at (lexer_create ''<= 3'') 0 = ''<='' ! 0 \<and>
   lexer_peek_at (lexer_create ''<= 3'') 1 = ''<='' ! 1 \<and>
   fst (lexer_next (lexer_create ''<= 3'')) =
     \<lparr>tok_type = TOKEN_OPERATOR, tok_value = Some ''<='', int_val = 0, float_val = 0,
      tok_line = 1, tok_column = 1, tok_length = 2\<rparr> \<and>
   position (snd (lexer_next (lexer_create ''<= 3''))) = 2"
proof -
  have h: "(''<='', 2) \<in> set operator_table" "lookahead_pos (lexer_create ''<= 3'') = 0"
    "lexer_peek_at (lexer_create ''<= 3'') 0 = ''<='' ! 0"
    "lexer_peek_at (lexer_create ''<= 3'') 1 = ''<='' ! 1"
    by (simp_all add: operator_table_def lexer_create_def lexer_peek_at_def char_at_def)
  from C8_two_character_operator_single_token [OF h] h show ?thesis
    by (simp add: lexer_create_def)
qed

text \<open>
  C9. Lexing \<open>42\<close> gives an integer token of value 42, \<open>0xFF\<close> one of value 255,
  \<open>0b1010\<close> one of value 10, and \<open>3.14e-2\<close> a float token whose value is 0.0314
  within tolerance (the value is the exact decimal here, see \<open>atof\<close>).
\<close>

theorem C9_numeric_literals:
  "tok_type (fst (lexer_next (lexer_create ''42''))) = TOKEN_NUMBER_INT \<and>
   int_val (fst (lexer_next (lexer_create ''42''))) = 42 \<and>
   tok_type (fst (lexer_next (lexer_create ''0xFF''))) = TOKEN_NUMBER_INT \<and>
   int_val (fst (lexer_next (lexer_create ''0xFF''))) = 255 \<and>
   tok_type (fst (lexer_next (lexer_create ''0b1010''))) = TOKEN_NUMBER_INT \<and>
   int_val (fst (lexer_next (lexer_create ''0b1010''))) = 10 \<and>
   tok_type (fst (lexer_next (lexer_create ''3.14e-2''))) = TOKEN_NUMBER_FLOAT \<and>
   \<bar>float_val (fst (lexer_next (lexer_create ''3.14e-2''))) - 314 / 10000\<bar> \<le> 1 / 10 ^ 12"
  by code_simp

text \<open>
  C10. \<open>lexer_peek_token\<close> with index 0 returns, and the token it returns is the token
  the next \<open>lexer_next\<close> returns (all fields equal); the tokens read afterwards are the
  same, in the same order, as without the peek. This holds in every lexer state.
\<close>

theorem C10_peek_then_next:
  "\<exists>t L1. lexer_peek_token L 0 = Some (t, L1) \<and>
           fst (lexer_next L1) = t \<and>
           (\<forall>n. next_tokens n L1 = next_tokens n L)"
proof (cases "0 < lookahead_pos L")
  case True
  then have "peek_token_loop L 0 = Some L"
    by (subst peek_token_loop.simps) simp
  then have "lexer_peek_token L 0 = Some (fst (lookahead L), L)"
    by (simp add: lexer_peek_token_def MAX_LOOKAHEAD_def lookahead_get_def)
  moreover have "fst (lexer_next L) = fst (lookahead L)"
    using True by (simp add: lexer_next_def Let_def)
  ultimately show ?thesis by simp
next
  case False
  then have z: "lookahead_pos L = 0" by simp
  let ?t = "fst (lexer_next_scan L)"
  let ?M = "snd (lexer_next_scan L)"
  let ?L1 = "with_buffer ?M (?t, snd (lookahead L)) 1 (current L)"
  have nx: "lexer_next L = lexer_next_scan L"
    using z by (simp add: lexer_next_def)
  have fill: "(snd (lexer_next L))
            \<lparr>lookahead := lookahead_set (lookahead (snd (lexer_next L)))
                            (lookahead_pos (snd (lexer_next L))) (fst (lexer_next L)),
             lookahead_pos := lookahead_pos (snd (lexer_next L)) + 1\<rparr> = ?L1"
    using z by (simp add: nx next_scan_frame lookahead_set_def with_buffer_def)
  have "peek_token_loop ?L1 0 = Some ?L1"
    by (subst peek_token_loop.simps) simp
  then have loop: "peek_token_loop L 0 = Some ?L1"
    using z fill by (subst peek_token_loop.simps) simp
  then have pk: "lexer_peek_token L 0 = Some (?t, ?L1)"
    by (simp add: lexer_peek_token_def MAX_LOOKAHEAD_def lookahead_get_def)
  have nx1: "lexer_next ?L1 =
      (?t, with_buffer ?M (snd (lookahead L), (snd (lookahead L))\<lparr>tok_value := None\<rparr>) 0 (current L))"
    by (simp add: lexer_next_def Let_def with_buffer_def)
  have pos: "lookahead_pos ?M = 0"
    using z by (simp add: next_scan_frame)
  have "next_tokens n ?L1 = next_tokens n L" for n
  proof (cases n)
    case 0
    then show ?thesis by simp
  next
    case (Suc m)
    then show ?thesis
      using nx1 by (simp add: nx next_tokens_empty_buffer [OF pos])
  qed
  with pk nx1 show ?thesis by simp
qed

section \<open>Every token read makes progress\<close>

lemma start_token_remaining [simp]:
  "remaining (lexer_start_token L) = remaining L"
  "lexer_peek (lexer_start_token L) = lexer_peek L"
  "lexer_peek_at (lexer_start_token L) j = lexer_peek_at L j"
  by (simp_all add: remaining_def lexer_peek_def lexer_peek_at_def lexer_start_token_def)

lemma remaining_skip_blanks_and_comments:
  "remaining (skip_blanks_and_comments L) \<le> remaining L"
proof (induction L rule: skip_blanks_and_comments.induct)
  case (1 L)
  let ?W = "lexer_skip_whitespace L"
  let ?lc = "lexer_skip_line_comment ?W"
  let ?bc = "lexer_skip_block_comment (snd ?lc)"
  have w: "remaining ?W \<le> remaining L" by (rule remaining_skip_whitespace)
  show ?case
  proof (cases "fst ?lc")
    case True
    then have "lexer_skip_line_comment ?W = (True, snd ?lc)"
      by (simp add: prod_eq_iff)
    from remaining_skip_line_comment [OF this] w "1.IH"(1) [OF refl True]
    show ?thesis
      using True by (subst skip_blanks_and_comments.simps) (simp add: Let_def)
  next
    case nl: False
    then have same: "snd ?lc = ?W"
      by (auto simp: lexer_skip_line_comment_def split: if_splits)
    show ?thesis
    proof (cases "fst ?bc")
      case True
      then have "lexer_skip_block_comment (snd ?lc) = (True, snd ?bc)"
        by (simp add: prod_eq_iff)
      from remaining_skip_block_comment [OF this] w same "1.IH"(2) [OF refl nl refl True]
      show ?thesis
        using nl True by (subst skip_blanks_and_comments.simps) (simp add: Let_def)
    next
      case False
      then have "snd ?bc = snd ?lc"
        by (auto simp: lexer_skip_block_comment_def split: if_splits prod.splits)
      with w same show ?thesis
        using nl False by (subst skip_blanks_and_comments.simps) (simp add: Let_def)
    qed
  qed
qed

lemma remaining_read_number_step_break:
  "read_number_step L f e h b = Break (L', f', e') \<Longrightarrow> remaining L' = remaining L"
  by (auto simp: read_number_step_def Let_def split: if_splits)

lemma remaining_read_number_loop:
  "remaining (fst (read_number_loop L f e h b)) \<le> remaining L"
proof (induction L f e h b rule: read_number_loop.induct)
  case (1 L is_float has_exponent is_hex is_binary)
  show ?case
  proof (cases "read_number_step L is_float has_exponent is_hex is_binary")
    case (Break r)
    then have "remaining (fst r) = remaining L"
      using remaining_read_number_step_break [of L _ _ _ _ "fst r" "fst (snd r)" "snd (snd r)"]
      by simp
    then show ?thesis
      using Break by (subst read_number_loop.simps) simp
  next
    case (Continue r)
    then have "remaining (fst r) < remaining L"
      using remaining_read_number_step [of L _ _ _ _ "fst r" "fst (snd r)" "snd (snd r)"]
      by simp
    with "1.IH" [OF Continue] show ?thesis
      using Continue by (subst read_number_loop.simps) simp
  qed
qed

lemma remaining_read_number:
  assumes "isdigit_c (lexer_peek L) \<or> lexer_peek L = CHR ''.''"
  shows "remaining (snd (lexer_read_number L)) < remaining L"
proof -
  let ?S = "lexer_start_token L"
  have nn: "lexer_peek ?S \<noteq> NUL"
    using assms isdigit_not_NUL by auto
  show ?thesis
  proof (cases "number_is_hex ?S \<or> number_is_binary ?S")
    case True
    have "remaining (lexer_advance (lexer_advance ?S)) < remaining L"
      using remaining_two_advances [OF nn] by simp
    with remaining_read_number_loop [of "lexer_advance (lexer_advance ?S)" False False
           "number_is_hex ?S" "number_is_binary ?S"]
    have "remaining (fst (read_number_loop (lexer_advance (lexer_advance ?S)) False False
           (number_is_hex ?S) (number_is_binary ?S))) < remaining L"
      by (rule order_le_less_trans)
    with True show ?thesis
      by (simp add: lexer_read_number_def Let_def)
  next
    case False
    then have h: "\<not> number_is_hex ?S" "\<not> number_is_binary ?S" by simp_all
    have "\<exists>r. read_number_step ?S False False False False = Continue r"
      using assms
      by (cases "lexer_peek L = CHR ''.''") (auto simp: read_number_step_def Let_def)
    then obtain r where st: "read_number_step ?S False False False False = Continue r" ..
    have less: "remaining (fst r) < remaining L"
      using remaining_read_number_step [of ?S _ _ _ _ "fst r" "fst (snd r)" "snd (snd r)"] st
      by simp
    have "read_number_loop ?S False False False False
          = read_number_loop (fst r) (fst (snd r)) (snd (snd r)) False False"
      by (subst read_number_loop.simps) (simp add: st)
    moreover from remaining_read_number_loop [of "fst r" "fst (snd r)" "snd (snd r)" False False] less
    have "remaining (fst (read_number_loop (fst r) (fst (snd r)) (snd (snd r)) False False))
          < remaining L"
      by (rule order_le_less_trans)
    ultimately show ?thesis
      using h by (simp add: lexer_read_number_def Let_def)
  qed
qed


lemma remaining_string_buffer_update [simp]:
  "remaining (L\<lparr>string_buffer := b\<rparr>) = remaining L"
  by (simp add: remaining_def)

lemma remaining_read_string_loop: "remaining (read_string_loop L q) \<le> remaining L"
proof (induction L q rule: read_string_loop.induct)
  case (1 L quote)
  show ?case
  proof (cases "lexer_peek L \<noteq> quote \<and> lexer_peek L \<noteq> NUL")
    case False
    then show ?thesis by (subst read_string_loop.simps) auto
  next
    case go: True
    then have less: "remaining (snd (read_string_char L)) < remaining L"
      by (simp add: remaining_read_string_char)
    show ?thesis
    proof (cases "MAX_STRING_LENGTH - 1 \<le> length (string_buffer (snd (read_string_char L)))")
      case True
      with go less show ?thesis by (subst read_string_loop.simps) simp
    next
      case False
      with "1.IH" [OF go False] go less show ?thesis
        by (subst read_string_loop.simps) simp
    qed
  qed
qed

lemma remaining_read_string:
  assumes "lexer_peek L \<noteq> NUL"
  shows "remaining (snd (lexer_read_string L)) < remaining L"
proof -
  let ?L1 = "(lexer_advance (lexer_start_token L))\<lparr>string_buffer := []\<rparr>"
  let ?L2 = "read_string_loop ?L1 (lexer_peek (lexer_start_token L))"
  have "remaining ?L1 < remaining L"
    using remaining_advance_less [of "lexer_start_token L"] assms by simp
  with remaining_read_string_loop [of ?L1] have a: "remaining ?L2 < remaining L"
    by (rule order_le_less_trans)
  with remaining_advance_le [of ?L2] have b: "remaining (lexer_advance ?L2) < remaining L"
    by (rule order_le_less_trans)
  show ?thesis
    using a b by (simp add: lexer_read_string_def Let_def)
qed

lemma remaining_read_identifier_loop: "remaining (read_identifier_loop L) \<le> remaining L"
proof (induction L rule: read_identifier_loop.induct)
  case (1 L)
  show ?case
  proof (cases "is_identifier_char (lexer_peek L)")
    case False
    then show ?thesis by (subst read_identifier_loop.simps) simp
  next
    case go: True
    show ?thesis
    proof (cases "MAX_IDENTIFIER_LENGTH \<le> position L - start_position L")
      case True
      with go show ?thesis by (subst read_identifier_loop.simps) simp
    next
      case False
      with "1.IH" [OF go False] go remaining_advance_le [of L] show ?thesis
        by (subst read_identifier_loop.simps) simp
    qed
  qed
qed

lemma remaining_read_identifier:
  assumes "lexer_peek L \<noteq> NUL"
  shows "remaining (snd (lexer_read_identifier L)) < remaining L"
proof -
  let ?A = "lexer_advance (lexer_start_token L)"
  have "remaining ?A < remaining L"
    using remaining_advance_less [of "lexer_start_token L"] assms by simp
  with remaining_read_identifier_loop [of ?A]
  have "remaining (read_identifier_loop ?A) < remaining L"
    by (rule order_le_less_trans)
  then show ?thesis
    by (simp add: lexer_read_identifier_def Let_def split: option.splits)
qed

lemma remaining_advance_times: "remaining (advance_times n L) \<le> remaining L"
proof (induction n arbitrary: L)
  case 0
  show ?case by simp
next
  case (Suc n)
  from Suc.IH [of "lexer_advance L"] remaining_advance_le [of L] show ?case by simp
qed

lemma find_best_op_length:
  assumes "find_best_op L ops best = Some op"
    and "\<And>b. best = Some b \<Longrightarrow> 0 < snd b"
    and "list_all (\<lambda>op. 0 < snd op) ops"
  shows "0 < snd op"
  using assms
proof (induction ops arbitrary: best)
  case Nil
  then show ?case by simp
next
  case (Cons a ops)
  show ?case
  proof (rule Cons.IH [OF Cons.prems(1) [simplified find_best_op.simps]])
    fix b
    assume "(if operator_matches L a \<and> (case best of None \<Rightarrow> True | Some b \<Rightarrow> snd b < snd a)
             then Some a else best) = Some b"
    then show "0 < snd b"
      using Cons.prems(2,3) by (auto split: if_splits)
  next
    show "list_all (\<lambda>op. 0 < snd op) ops"
      using Cons.prems(3) by simp
  qed
qed

lemma remaining_read_operator:
  assumes "lexer_peek L \<noteq> NUL"
  shows "remaining (snd (lexer_read_operator L)) < remaining L"
proof (cases "find_best_op (lexer_start_token L) operator_table None")
  case None
  then show ?thesis
    using remaining_advance_less [of "lexer_error (lexer_start_token L) m" for m] assms
    by (simp add: lexer_read_operator_def Let_def)
next
  case (Some op)
  have "list_all (\<lambda>op. 0 < snd op) operator_table"
    by (simp add: operator_table_def)
  with find_best_op_length [OF Some] have "0 < snd op" by simp
  then obtain k where k: "snd op = Suc k" by (cases "snd op") auto
  have "remaining (lexer_advance (lexer_start_token L)) < remaining L"
    using remaining_advance_less [of "lexer_start_token L"] assms by simp
  with remaining_advance_times [of k "lexer_advance (lexer_start_token L)"]
  have "remaining (advance_times (snd op) (lexer_start_token L)) < remaining L"
    unfolding k by (simp add: order_le_less_trans)
  then show ?thesis
    using Some by (simp add: lexer_read_operator_def Let_def)
qed

lemma next_scan_progress:
  shows "remaining (snd (lexer_next_scan L)) \<le> remaining L"
    and "tok_type (fst (lexer_next_scan L)) \<noteq> TOKEN_EOF \<Longrightarrow>
         remaining (snd (lexer_next_scan L)) < remaining L"
    and "tok_value (fst (lexer_next_scan L)) \<noteq> None \<Longrightarrow>
         remaining (snd (lexer_next_scan L)) < remaining L"
proof -
  let ?B = "skip_blanks_and_comments L"
  have b: "remaining ?B \<le> remaining L"
    by (rule remaining_skip_blanks_and_comments)
  have strict: "remaining (snd (lexer_next_scan L)) < remaining L" if nn: "lexer_peek ?B \<noteq> NUL"
  proof -
    have adv: "remaining (lexer_advance (lexer_start_token ?B)) < remaining ?B"
      using remaining_advance_less [of "lexer_start_token ?B"] nn by simp
    have adv': "remaining (lexer_advance (lexer_error (lexer_start_token ?B) m)) < remaining ?B" for m
      using remaining_advance_less [of "lexer_error (lexer_start_token ?B) m"] nn by simp
    have "remaining (snd (lexer_next_scan L)) < remaining ?B"
      using nn adv adv' remaining_read_number [of ?B] remaining_read_string [of ?B]
        remaining_read_identifier [of ?B] remaining_read_operator [of ?B]
      by (simp add: lexer_next_scan_def Let_def)
    with b show ?thesis by simp
  qed
  show "remaining (snd (lexer_next_scan L)) \<le> remaining L"
  proof (cases "lexer_peek ?B = NUL")
    case True
    with b show ?thesis by (simp add: lexer_next_scan_def Let_def)
  next
    case False
    with strict show ?thesis by simp
  qed
  show "remaining (snd (lexer_next_scan L)) < remaining L"
    if "tok_type (fst (lexer_next_scan L)) \<noteq> TOKEN_EOF"
  proof (cases "lexer_peek ?B = NUL")
    case True
    with that show ?thesis
      by (simp add: lexer_next_scan_def Let_def lexer_make_token_def)
  next
    case False
    with strict show ?thesis by simp
  qed
  show "remaining (snd (lexer_next_scan L)) < remaining L"
    if "tok_value (fst (lexer_next_scan L)) \<noteq> None"
  proof (cases "lexer_peek ?B = NUL")
    case True
    with that show ?thesis
      by (simp add: lexer_next_scan_def Let_def lexer_make_token_def)
  next
    case False
    with strict show ?thesis by simp
  qed
qed

section \<open>Syntax trees (ast.h, ast.c)\<close>

text \<open>
  A node of \<^verbatim>\<open>struct ASTNode\<close> is a value of the datatype below: one constructor per
  node kind that the parser creates, holding the fields that kind uses, then \<open>line\<close>
  and \<open>column\<close>. A child pointer that may be null is an \<open>option\<close>. A chain of nodes
  linked through \<open>next\<close> is the list of the nodes reached from its head, in order.
  \<^verbatim>\<open>calloc\<close> leaves every other field zero. A text (a name, an operator, a member) is
  \<open>None\<close> for the null pointer.
\<close>

datatype LiteralValue =
    IntVal int
  | FloatVal real
  | StringVal "string option"
  | BoolVal bool
  | NullVal

datatype ASTNode =
    NODE_PROGRAM "ASTNode list"
  | NODE_BLOCK "ASTNode list" nat nat
  | NODE_VAR_DECL "string option" "ASTNode option" bool nat nat
  | NODE_IF_STMT ASTNode ASTNode "ASTNode option" "ASTNode list" nat nat
  | NODE_ELIF_STMT ASTNode ASTNode nat nat
  | NODE_WHILE_STMT ASTNode ASTNode nat nat
  | NODE_FOR_STMT "string option" ASTNode ASTNode nat nat
  | NODE_RETURN_STMT "ASTNode option" nat nat
  | NODE_BREAK_STMT nat nat
  | NODE_CONTINUE_STMT nat nat
  | NODE_EXPR_STMT ASTNode nat nat
  | NODE_FROM_IMPORT "string option" "string list" nat bool nat nat
  | NODE_BINARY_EXPR "string option" ASTNode ASTNode nat nat
  | NODE_UNARY_EXPR "string option" ASTNode nat nat
  | NODE_LITERAL LiteralValue nat nat
  | NODE_IDENTIFIER "string option" nat nat
  | NODE_ASSIGNMENT ASTNode ASTNode nat nat
  | NODE_CALL_EXPR ASTNode "ASTNode list" nat nat nat
  | NODE_ARRAY_LITERAL "ASTNode list" nat nat nat
  | NODE_DICT_LITERAL "string list" "ASTNode list" nat nat nat
  | NODE_MEMBER_ACCESS ASTNode "string option" nat nat

text \<open>
  \<open>NODE_VAR_DECL name value is_const\<close> stands for both declaration kinds: the tag is
  \<^verbatim>\<open>NODE_CONST_DECL\<close> when \<open>is_const\<close> holds. \<open>NODE_IF_STMT\<close> holds condition, then
  branch, else branch and the chain of elif nodes; \<open>NODE_FROM_IMPORT\<close> the module name,
  the imports, \<open>import_count\<close> and \<open>import_all\<close>; \<open>NODE_CALL_EXPR\<close> the callee, the
  argument chain and \<open>arg_count\<close>; \<open>NODE_DICT_LITERAL\<close> keys, value chain and
  \<open>pair_count\<close>.

  \<open>add_next_statement (head, node)\<close> stores \<open>node\<close> in \<open>head->next\<close>. The list loops
  of \<open>parse_primary\<close> and the elif loop always pass the head of the chain, so the chain
  becomes the head followed by the new node.
\<close>

definition set_next_of_head :: "ASTNode list \<Rightarrow> ASTNode \<Rightarrow> ASTNode list" where
  "set_next_of_head chain node = (case chain of [] \<Rightarrow> [node] | head # _ \<Rightarrow> [head, node])"

section \<open>Parser state and primitives (parser.c, lines 17-100)\<close>

text \<open>
  The parser owns the lexer it points to, so the lexer state is a field. A run ends in
  one of four ways: it returns, it dereferences a null pointer (\<^verbatim>\<open>strlen\<close> or
  \<^verbatim>\<open>strdup\<close> of a token without text), it reads memory that was freed, or the fuel
  of the model runs out.

  Freed memory. \<open>parser->current\<close> is a copy of the lexer's current token
  (\<open>parser_create\<close> and \<open>parser_advance\<close> set it from \<open>lexer_current\<close>), so both hold
  the same pointer to the token text. \<open>lexer_skip\<close> frees that text before it reads the
  next token (lexer.c, lines 769-790). Hence a token saved in a local variable before
  \<open>parser_advance\<close> has a dangling \<open>value\<close> afterwards. The node constructors copy a
  text with \<^verbatim>\<open>name ? strdup(name) : NULL\<close>: given such a token they read freed memory,
  unless its \<open>value\<close> is null. The behaviour of that read is undefined; in the model it
  is the outcome \<open>UseAfterFree\<close>, and the text of a node built after the advance is
  always \<open>None\<close>.
\<close>

record Parser =
  lexer :: Lexer
  pcurrent :: Token
  p_has_error :: bool
  p_error_msg :: string
  error_line :: nat
  error_column :: nat

datatype 'a outcome = OutOfFuel | NullDeref | UseAfterFree | Returns 'a

definition parser_create :: "Lexer \<Rightarrow> Parser" where
  "parser_create L =
    \<lparr>lexer = L, pcurrent = lexer_current L, p_has_error = False, p_error_msg = [],
     error_line = 0, error_column = 0\<rparr>"

definition parser_error :: "Parser \<Rightarrow> string \<Rightarrow> Parser" where
  "parser_error P msg =
    P\<lparr>p_error_msg := take 255 (c_str msg), p_has_error := True,
      error_line := tok_line (pcurrent P), error_column := tok_column (pcurrent P)\<rparr>"

definition parser_advance :: "Parser \<Rightarrow> Parser" where
  "parser_advance P =
    (let L = lexer_skip (lexer P) in P\<lparr>lexer := L, pcurrent := lexer_current L\<rparr>)"

definition parser_check :: "Parser \<Rightarrow> TokenType \<Rightarrow> bool" where
  "parser_check P ty = (tok_type (pcurrent P) = ty)"

definition parser_check_value :: "Parser \<Rightarrow> TokenType \<Rightarrow> string option \<Rightarrow> bool" where
  "parser_check_value P ty v =
    (if tok_type (pcurrent P) \<noteq> ty then False
     else case v of
            None \<Rightarrow> tok_value (pcurrent P) = None
          | Some s \<Rightarrow> (case tok_value (pcurrent P) of None \<Rightarrow> False | Some s' \<Rightarrow> s' = s))"

definition parser_expect :: "Parser \<Rightarrow> TokenType \<Rightarrow> string option \<Rightarrow> string \<Rightarrow> bool \<times> Parser" where
  "parser_expect P ty v msg =
    (if \<not> parser_check_value P ty v then (False, parser_error P msg) else (True, P))"

definition parser_match :: "Parser \<Rightarrow> TokenType \<Rightarrow> string option \<Rightarrow> bool \<times> Parser" where
  "parser_match P ty v =
    (if parser_check_value P ty v then (True, parser_advance P) else (False, P))"

text \<open>A chain \<^verbatim>\<open>parser_match(..) || parser_match(..) || ...\<close>: the first match advances.\<close>

fun parser_match_any :: "Parser \<Rightarrow> (TokenType \<times> string option) list \<Rightarrow> bool \<times> Parser" where
  "parser_match_any P [] = (False, P)"
| "parser_match_any P (tv # rest) =
    (if fst (parser_match P (fst tv) (snd tv)) then parser_match P (fst tv) (snd tv)
     else parser_match_any (snd (parser_match P (fst tv) (snd tv))) rest)"

subsection \<open>Every advance makes progress\<close>

text \<open>
  The measure of a parser state: the bytes and buffered tokens still to be read, and
  one more unless the current token is the end-of-input token the lexer makes (which
  has no text). Reading a token never increases it, and decreases it from every other
  current token.
\<close>

definition at_end :: "Parser \<Rightarrow> bool" where
  "at_end P = (tok_type (pcurrent P) = TOKEN_EOF \<and> tok_value (pcurrent P) = None)"

definition pm :: "Parser \<Rightarrow> nat" where
  "pm P = 2 * remaining (lexer P) + 2 * lookahead_pos (lexer P) + (if at_end P then 0 else 1)"

lemma lexer_skip_scan:
  assumes "lookahead_pos L = 0"
  shows "lookahead_pos (lexer_skip L) = 0"
    and "lexer_current (lexer_skip L) = fst (lexer_next_scan L)"
    and "remaining (lexer_skip L) = remaining (snd (lexer_next_scan L))"
  using assms
  by (simp_all add: lexer_skip_def lexer_next_def lexer_current_def next_scan_frame remaining_def)

lemma lexer_skip_buffered:
  assumes "0 < lookahead_pos L"
  shows "lookahead_pos (lexer_skip L) = lookahead_pos L - 1"
    and "remaining (lexer_skip L) = remaining L"
  using assms by (simp_all add: lexer_skip_def Let_def remaining_def)

lemma pm_advance_le: "pm (parser_advance P) \<le> pm P"
proof (cases "0 < lookahead_pos (lexer P)")
  case True
  from lexer_skip_buffered [OF True] True show ?thesis
    by (auto simp: pm_def parser_advance_def Let_def)
next
  case False
  then have z: "lookahead_pos (lexer P) = 0" by simp
  let ?t = "fst (lexer_next_scan (lexer P))"
  show ?thesis
  proof (cases "tok_type ?t = TOKEN_EOF \<and> tok_value ?t = None")
    case True
    with lexer_skip_scan [OF z] next_scan_progress(1) [of "lexer P"] z show ?thesis
      by (simp add: pm_def at_end_def parser_advance_def Let_def)
  next
    case False
    then have "remaining (snd (lexer_next_scan (lexer P))) < remaining (lexer P)"
      using next_scan_progress(2,3) [of "lexer P"] by blast
    with lexer_skip_scan [OF z] z show ?thesis
      by (simp add: pm_def at_end_def parser_advance_def Let_def)
  qed
qed

lemma pm_advance_less:
  assumes "\<not> at_end P"
  shows "pm (parser_advance P) < pm P"
proof (cases "0 < lookahead_pos (lexer P)")
  case True
  from lexer_skip_buffered [OF True] True show ?thesis
    by (auto simp: pm_def parser_advance_def Let_def)
next
  case False
  then have z: "lookahead_pos (lexer P) = 0" by simp
  let ?t = "fst (lexer_next_scan (lexer P))"
  show ?thesis
  proof (cases "tok_type ?t = TOKEN_EOF \<and> tok_value ?t = None")
    case True
    with lexer_skip_scan [OF z] next_scan_progress(1) [of "lexer P"] z assms show ?thesis
      by (auto simp: pm_def at_end_def parser_advance_def Let_def)
  next
    case False
    then have "remaining (snd (lexer_next_scan (lexer P))) < remaining (lexer P)"
      using next_scan_progress(2,3) [of "lexer P"] by blast
    with lexer_skip_scan [OF z] z show ?thesis
      by (simp add: pm_def at_end_def parser_advance_def Let_def)
  qed
qed

lemma pm_advance_less_type:
  "tok_type (pcurrent P) \<noteq> TOKEN_EOF \<Longrightarrow> pm (parser_advance P) < pm P"
  by (rule pm_advance_less) (simp add: at_end_def)


section \<open>Expressions (parser.c, lines 105-552)\<close>

text \<open>
  \<open>parse_literal\<close> and \<open>parse_identifier\<close> save the current token, advance, and then
  build the node. The numbers of a literal are fields of the saved token; the text of
  a string literal or an identifier is read after the advance that freed it.
\<close>

definition parse_literal :: "Parser \<Rightarrow> (ASTNode option \<times> Parser) outcome" where
  "parse_literal P =
    (let token = pcurrent P in
     if tok_type token = TOKEN_NUMBER_INT then
       Returns (Some (NODE_LITERAL (IntVal (int_val token)) (tok_line token) (tok_column token)),
                parser_advance P)
     else if tok_type token = TOKEN_NUMBER_FLOAT then
       Returns (Some (NODE_LITERAL (FloatVal (float_val token)) (tok_line token)
                        (tok_column token)),
                parser_advance P)
     else if tok_type token = TOKEN_STRING then
       (case tok_value token of
          Some freed \<Rightarrow> UseAfterFree
        | None \<Rightarrow>
            Returns (Some (NODE_LITERAL (StringVal None) (tok_line token) (tok_column token)),
                     parser_advance P))
     else if tok_type token = TOKEN_TRUE then
       Returns (Some (NODE_LITERAL (BoolVal True) (tok_line token) (tok_column token)),
                parser_advance P)
     else if tok_type token = TOKEN_FALSE then
       Returns (Some (NODE_LITERAL (BoolVal False) (tok_line token) (tok_column token)),
                parser_advance P)
     else if tok_type token = TOKEN_NULL then
       Returns (Some (NODE_LITERAL NullVal (tok_line token) (tok_column token)),
                parser_advance P)
     else Returns (None, P))"

definition parse_identifier :: "Parser \<Rightarrow> (ASTNode option \<times> Parser) outcome" where
  "parse_identifier P =
    (if \<not> parser_check P TOKEN_IDENTIFIER then Returns (None, P)
     else case tok_value (pcurrent P) of
            Some freed \<Rightarrow> UseAfterFree
          | None \<Rightarrow>
              Returns (Some (NODE_IDENTIFIER None (tok_line (pcurrent P))
                               (tok_column (pcurrent P))),
                       parser_advance P))"

text \<open>
  The five binary levels of the grammar are five functions of one shape in the source
  (\<open>parse_multiplicative\<close>, \<open>parse_additive\<close>, \<open>parse_comparison\<close>,
  \<open>parse_logical_and\<close>, \<open>parse_logical_or\<close>): they differ in the operators they
  match, in the message, and in the function that parses an operand. The model has one
  function \<open>parse_binary\<close> with the level as an argument.

  \<^verbatim>\<open>TOKEN_KEYWORD\<close>, which \<open>parse_unary\<close>, \<open>parse_logical_and\<close> and \<open>parse_logical_or\<close>
  pass to \<open>parser_match\<close>, is declared nowhere in the repository. It is the parameter
  \<open>kw\<close> of every parsing function: all results hold whichever token type it is.
\<close>

datatype level = Multiplicative | Additive | Comparison | Logical_and | Logical_or

definition level_operators :: "TokenType \<Rightarrow> level \<Rightarrow> (TokenType \<times> string option) list" where
  "level_operators kw lvl =
    (case lvl of
       Multiplicative \<Rightarrow>
         [(TOKEN_OPERATOR, Some ''*''), (TOKEN_OPERATOR, Some ''/''), (TOKEN_OPERATOR, Some ''%'')]
     | Additive \<Rightarrow> [(TOKEN_OPERATOR, Some ''+''), (TOKEN_OPERATOR, Some ''-'')]
     | Comparison \<Rightarrow>
         [(TOKEN_OPERATOR, Some ''<''), (TOKEN_OPERATOR, Some ''>''),
          (TOKEN_OPERATOR, Some ''<=''), (TOKEN_OPERATOR, Some ''>=''),
          (TOKEN_OPERATOR, Some ''==''), (TOKEN_OPERATOR, Some ''!='')]
     | Logical_and \<Rightarrow> [(TOKEN_OPERATOR, Some ''&&''), (kw, Some ''and'')]
     | Logical_or \<Rightarrow> [(TOKEN_OPERATOR, Some ''||''), (kw, Some ''or'')])"

definition level_message :: "level \<Rightarrow> string" where
  "level_message lvl =
    (case lvl of
       Multiplicative \<Rightarrow> ''Expected right operand for binary operator''
     | Additive \<Rightarrow> ''Expected right operand for binary operator''
     | Comparison \<Rightarrow> ''Expected right operand for comparison operator''
     | Logical_and \<Rightarrow> ''Expected right operand for logical AND''
     | Logical_or \<Rightarrow> ''Expected right operand for logical OR'')"

definition assignment_operators :: "(TokenType \<times> string option) list" where
  "assignment_operators =
    [(TOKEN_OPERATOR, Some ''=''), (TOKEN_OPERATOR, Some ''+=''), (TOKEN_OPERATOR, Some ''-=''),
     (TOKEN_OPERATOR, Some ''*=''), (TOKEN_OPERATOR, Some ''/=''), (TOKEN_OPERATOR, Some ''%='')]"

text \<open>
  The parsing functions call each other recursively. Each is first written as its body,
  a function of the functions it calls (their names carry a prime); the functions
  themselves are then defined by recursion on fuel: with no fuel every call gives
  \<open>OutOfFuel\<close>, and with \<open>n + 1\<close> units a function runs its body over the functions
  with \<open>n\<close> units. So every call and every loop iteration uses one unit.

  \<open>expression_list_loop\<close> is the \<^verbatim>\<open>while (1)\<close> of the argument list of a call and of
  the elements of an array literal (the closing bracket and the two messages are its
  arguments); \<open>dictionary_loop\<close> that of a dictionary literal; \<open>binary_loop\<close> the
  \<^verbatim>\<open>while\<close> of a binary level, with the local \<open>left\<close>.
\<close>

type_synonym node_parser = "Parser \<Rightarrow> (ASTNode option \<times> Parser) outcome"

type_synonym list_loop =
  "string \<Rightarrow> string \<Rightarrow> string \<Rightarrow> Parser \<Rightarrow> ASTNode list \<Rightarrow> nat
    \<Rightarrow> ((ASTNode list \<times> nat) \<times> Parser) outcome"

type_synonym dict_loop =
  "Parser \<Rightarrow> string list \<Rightarrow> ASTNode list \<Rightarrow> nat
    \<Rightarrow> ((string list \<times> ASTNode list \<times> nat) \<times> Parser) outcome"

definition parse_primary_body :: "node_parser \<Rightarrow> list_loop \<Rightarrow> dict_loop \<Rightarrow> node_parser" where
  "parse_primary_body parse_expression' expression_list_loop' dictionary_loop' P =
    (case parse_literal P of
       OutOfFuel \<Rightarrow> OutOfFuel
     | NullDeref \<Rightarrow> NullDeref
     | UseAfterFree \<Rightarrow> UseAfterFree
     | Returns (Some node, P1) \<Rightarrow> Returns (Some node, P1)
     | Returns (None, P1) \<Rightarrow>
    (case parse_identifier P1 of
       OutOfFuel \<Rightarrow> OutOfFuel
     | NullDeref \<Rightarrow> NullDeref
     | UseAfterFree \<Rightarrow> UseAfterFree
     | Returns (Some node, P2) \<Rightarrow>
         (let (dot, P3) = parser_match P2 TOKEN_PUNCTUATION (Some ''.'') in
          if dot then
            (if \<not> parser_check P3 TOKEN_IDENTIFIER
             then Returns (None, parser_error P3
                             (''Expected member name after '' @ [SQUOTE, CHR ''.'', SQUOTE]))
             else case tok_value (pcurrent P3) of
                    Some freed \<Rightarrow> UseAfterFree
                  | None \<Rightarrow>
                      Returns (Some (NODE_MEMBER_ACCESS node None
                                       (tok_line (pcurrent P3)) (tok_column (pcurrent P3))),
                               parser_advance P3))
          else
            (let (paren, P4) = parser_match P3 TOKEN_PUNCTUATION (Some ''('') in
             if paren then
               (let (closed, P5) = parser_match P4 TOKEN_PUNCTUATION (Some '')'') in
                if \<not> closed then
                  (case expression_list_loop' '')''
                          ''Expected expression in function call''
                          (''Expected '' @ [SQUOTE, CHR '','', SQUOTE] @ '' or '' @
                             [SQUOTE, CHR '')'', SQUOTE] @ '' in function call'')
                          P5 [] 0 of
                     OutOfFuel \<Rightarrow> OutOfFuel
                   | NullDeref \<Rightarrow> NullDeref
                   | UseAfterFree \<Rightarrow> UseAfterFree
                   | Returns (ac, P6) \<Rightarrow>
                       Returns (Some (NODE_CALL_EXPR node (fst ac) (snd ac)
                                        (tok_line (pcurrent P6)) (tok_column (pcurrent P6))), P6))
                else Returns (Some (NODE_CALL_EXPR node [] 0
                                      (tok_line (pcurrent P5)) (tok_column (pcurrent P5))), P5))
             else Returns (Some node, P4)))
     | Returns (None, P2) \<Rightarrow>
         (let (bracket, P3) = parser_match P2 TOKEN_PUNCTUATION (Some ''['') in
          if bracket then
            (let (closed, P4) = parser_match P3 TOKEN_PUNCTUATION (Some '']'') in
             if \<not> closed then
               (case expression_list_loop' '']''
                       ''Expected expression in array''
                       (''Expected '' @ [SQUOTE, CHR '','', SQUOTE] @ '' or '' @
                          [SQUOTE, CHR '']'', SQUOTE] @ '' in array'')
                       P4 [] 0 of
                  OutOfFuel \<Rightarrow> OutOfFuel
                | NullDeref \<Rightarrow> NullDeref
                | UseAfterFree \<Rightarrow> UseAfterFree
                | Returns (ec, P5) \<Rightarrow>
                    Returns (Some (NODE_ARRAY_LITERAL (fst ec) (snd ec)
                                     (tok_line (pcurrent P5)) (tok_column (pcurrent P5))), P5))
             else Returns (Some (NODE_ARRAY_LITERAL [] 0
                                   (tok_line (pcurrent P4)) (tok_column (pcurrent P4))), P4))
          else
            (let (brace, P4) = parser_match P3 TOKEN_PUNCTUATION (Some ''{'') in
             if brace then
               (let (closed, P5) = parser_match P4 TOKEN_PUNCTUATION (Some ''}'') in
                if \<not> closed then
                  (case dictionary_loop' P5 [] [] 0 of
                     OutOfFuel \<Rightarrow> OutOfFuel
                   | NullDeref \<Rightarrow> NullDeref
                   | UseAfterFree \<Rightarrow> UseAfterFree
                   | Returns (kvc, P6) \<Rightarrow>
                       Returns (Some (NODE_DICT_LITERAL (fst kvc) (fst (snd kvc)) (snd (snd kvc))
                                        (tok_line (pcurrent P6)) (tok_column (pcurrent P6))), P6))
                else Returns (Some (NODE_DICT_LITERAL [] [] 0
                                      (tok_line (pcurrent P5)) (tok_column (pcurrent P5))), P5))
             else
               (let (paren, P5) = parser_match P4 TOKEN_PUNCTUATION (Some ''('') in
                if paren then
                  (case parse_expression' P5 of
                     OutOfFuel \<Rightarrow> OutOfFuel
                   | NullDeref \<Rightarrow> NullDeref
                   | UseAfterFree \<Rightarrow> UseAfterFree
                   | Returns (None, P6) \<Rightarrow>
                       Returns (None, parser_error P6
                                  (''Expected expression after '' @ [SQUOTE, CHR ''('', SQUOTE]))
                   | Returns (Some expr, P6) \<Rightarrow>
                       (let (ok, P7) = parser_expect P6 TOKEN_PUNCTUATION (Some '')'')
                                         (''Expected '' @ [SQUOTE, CHR '')'', SQUOTE] @
                                          '' after expression'')
                        in if \<not> ok then Returns (None, P7) else Returns (Some expr, P7)))
                else Returns (None, parser_error P5 ''Expected expression''))))))"

definition expression_list_loop_body :: "node_parser \<Rightarrow> list_loop \<Rightarrow> list_loop" where
  "expression_list_loop_body parse_expression' expression_list_loop'
       closer msg_expr msg_sep P elems cnt =
    (case parse_expression' P of
       OutOfFuel \<Rightarrow> OutOfFuel
     | NullDeref \<Rightarrow> NullDeref
     | UseAfterFree \<Rightarrow> UseAfterFree
     | Returns (None, P1) \<Rightarrow> Returns ((elems, cnt), parser_error P1 msg_expr)
     | Returns (Some e, P1) \<Rightarrow>
         (let (comma, P2) = parser_match P1 TOKEN_PUNCTUATION (Some '','') in
          if comma
          then expression_list_loop' closer msg_expr msg_sep P2 (set_next_of_head elems e) (cnt + 1)
          else
            (let (closed, P3) = parser_match P2 TOKEN_PUNCTUATION (Some closer) in
             if closed then Returns ((set_next_of_head elems e, cnt + 1), P3)
             else Returns ((set_next_of_head elems e, cnt + 1), parser_error P3 msg_sep))))"

definition dictionary_loop_body :: "node_parser \<Rightarrow> dict_loop \<Rightarrow> dict_loop" where
  "dictionary_loop_body parse_expression' dictionary_loop' P keys vals cnt =
    (if parser_check P TOKEN_STRING \<or> parser_check P TOKEN_IDENTIFIER then
       (case tok_value (pcurrent P) of
          None \<Rightarrow> NullDeref
        | Some key \<Rightarrow>
            (let (ok, P2) = parser_expect (parser_advance P) TOKEN_PUNCTUATION (Some '':'')
                              (''Expected '' @ [SQUOTE, CHR '':'', SQUOTE] @ '' after dictionary key'')
             in if \<not> ok then Returns ((keys, vals, cnt), P2)
                else
                  (case parse_expression' P2 of
                     OutOfFuel \<Rightarrow> OutOfFuel
                   | NullDeref \<Rightarrow> NullDeref
                   | UseAfterFree \<Rightarrow> UseAfterFree
                   | Returns (None, P3) \<Rightarrow>
                       Returns ((keys, vals, cnt),
                                parser_error P3 ''Expected expression as dictionary value'')
                   | Returns (Some v, P3) \<Rightarrow>
                       (let (comma, P4) = parser_match P3 TOKEN_PUNCTUATION (Some '','') in
                        if comma
                        then dictionary_loop' P4 (keys @ [key]) (set_next_of_head vals v) (cnt + 1)
                        else
                          (let (closed, P5) = parser_match P4 TOKEN_PUNCTUATION (Some ''}'') in
                           if closed
                           then Returns ((keys @ [key], set_next_of_head vals v, cnt + 1), P5)
                           else Returns ((keys @ [key], set_next_of_head vals v, cnt + 1),
                                         parser_error P5
                                           (''Expected '' @ [SQUOTE, CHR '','', SQUOTE] @ '' or '' @
                                            [SQUOTE, CHR ''}'', SQUOTE] @ '' in dictionary'')))))))
     else Returns ((keys, vals, cnt),
                   parser_error P ''Expected string or identifier as dictionary key''))"

definition parse_unary_body :: "TokenType \<Rightarrow> node_parser \<Rightarrow> node_parser \<Rightarrow> node_parser" where
  "parse_unary_body kw parse_unary' parse_primary' P =
    (let op_token = pcurrent P;
         (minus, P1) = parser_match P TOKEN_OPERATOR (Some ''-'');
         (bang, P2) = (if minus then (False, P1) else parser_match P1 TOKEN_OPERATOR (Some ''!''));
         (not_kw, P3) = (if minus \<or> bang then (False, P2) else parser_match P2 kw (Some ''not''));
         op = (if minus then Some ''-'' else if bang then Some ''!''
               else if not_kw then Some ''not'' else None)
     in if op \<noteq> None then
          (case parse_unary' P3 of
             OutOfFuel \<Rightarrow> OutOfFuel
           | NullDeref \<Rightarrow> NullDeref
           | UseAfterFree \<Rightarrow> UseAfterFree
           | Returns (None, P4) \<Rightarrow>
               Returns (None, parser_error P4 ''Expected operand after unary operator'')
           | Returns (Some operand, P4) \<Rightarrow>
               Returns (Some (NODE_UNARY_EXPR op operand (tok_line op_token) (tok_column op_token)),
                        P4))
        else parse_primary' P3)"

text \<open>The function that parses an operand of a level: the next tighter level.\<close>

definition operand_parser :: "node_parser \<Rightarrow> (level \<Rightarrow> node_parser) \<Rightarrow> level \<Rightarrow> node_parser" where
  "operand_parser parse_unary' parse_binary' lvl =
    (case lvl of
       Multiplicative \<Rightarrow> parse_unary'
     | Additive \<Rightarrow> parse_binary' Multiplicative
     | Comparison \<Rightarrow> parse_binary' Additive
     | Logical_and \<Rightarrow> parse_binary' Comparison
     | Logical_or \<Rightarrow> parse_binary' Logical_and)"

definition parse_binary_body ::
  "node_parser \<Rightarrow> (level \<Rightarrow> node_parser)
    \<Rightarrow> (level \<Rightarrow> Parser \<Rightarrow> ASTNode \<Rightarrow> (ASTNode option \<times> Parser) outcome)
    \<Rightarrow> level \<Rightarrow> node_parser" where
  "parse_binary_body parse_unary' parse_binary' binary_loop' lvl P =
    (case operand_parser parse_unary' parse_binary' lvl P of
       OutOfFuel \<Rightarrow> OutOfFuel
     | NullDeref \<Rightarrow> NullDeref
     | UseAfterFree \<Rightarrow> UseAfterFree
     | Returns (None, P1) \<Rightarrow> Returns (None, P1)
     | Returns (Some left, P1) \<Rightarrow> binary_loop' lvl P1 left)"

definition binary_loop_body ::
  "TokenType \<Rightarrow> node_parser \<Rightarrow> (level \<Rightarrow> node_parser)
    \<Rightarrow> (level \<Rightarrow> Parser \<Rightarrow> ASTNode \<Rightarrow> (ASTNode option \<times> Parser) outcome)
    \<Rightarrow> level \<Rightarrow> Parser \<Rightarrow> ASTNode \<Rightarrow> (ASTNode option \<times> Parser) outcome" where
  "binary_loop_body kw parse_unary' parse_binary' binary_loop' lvl P left =
    (let (matched, P1) = parser_match_any P (level_operators kw lvl) in
     if matched then
       (let op = tok_value (pcurrent P1);
            ln = tok_line (pcurrent P1);
            col = tok_column (pcurrent P1);
            P2 = parser_advance P1
        in case operand_parser parse_unary' parse_binary' lvl P2 of
             OutOfFuel \<Rightarrow> OutOfFuel
           | NullDeref \<Rightarrow> NullDeref
           | UseAfterFree \<Rightarrow> UseAfterFree
           | Returns (None, P3) \<Rightarrow> Returns (None, parser_error P3 (level_message lvl))
           | Returns (Some right, P3) \<Rightarrow>
               (case op of
                  Some freed \<Rightarrow> UseAfterFree
                | None \<Rightarrow> binary_loop' lvl P3 (NODE_BINARY_EXPR None left right ln col)))
     else Returns (Some left, P1))"

text \<open>
  \<open>parse_assignment\<close>: after an assignment operator was matched, \<open>op\<close> is the text
  pointer of the token that follows it, and \<open>parser_advance\<close> frees that text. The next
  thing the function does is \<^verbatim>\<open>strlen(op)\<close>: a null pointer if that token has no text,
  freed memory otherwise. So every run through an assignment operator ends there, and
  the rest of the function (the test for a compound operator, the recursive call for
  the right side, \<open>create_assignment_node\<close>) is never reached by a defined run.
\<close>

definition parse_assignment_body :: "(level \<Rightarrow> node_parser) \<Rightarrow> node_parser" where
  "parse_assignment_body parse_binary' P =
    (case parse_binary' Logical_or P of
       OutOfFuel \<Rightarrow> OutOfFuel
     | NullDeref \<Rightarrow> NullDeref
     | UseAfterFree \<Rightarrow> UseAfterFree
     | Returns (None, P1) \<Rightarrow> Returns (None, P1)
     | Returns (Some left, P1) \<Rightarrow>
         (let (matched, P2) = parser_match_any P1 assignment_operators in
          if matched then
            (case tok_value (pcurrent P2) of
               None \<Rightarrow> NullDeref
             | Some freed \<Rightarrow> UseAfterFree)
          else Returns (Some left, P2)))"

record expression_parsers =
  primary_of :: node_parser
  list_loop_of :: list_loop
  dict_loop_of :: dict_loop
  unary_of :: node_parser
  binary_of :: "level \<Rightarrow> node_parser"
  binary_loop_of :: "level \<Rightarrow> Parser \<Rightarrow> ASTNode \<Rightarrow> (ASTNode option \<times> Parser) outcome"
  assignment_of :: node_parser

text \<open>\<open>parse_expression\<close> only calls \<open>parse_assignment\<close>; it is the same function here.\<close>

primrec expressions :: "TokenType \<Rightarrow> nat \<Rightarrow> expression_parsers" where
  "expressions kw 0 =
    \<lparr>primary_of = (\<lambda>P. OutOfFuel),
     list_loop_of = (\<lambda>closer msg_expr msg_sep P elems cnt. OutOfFuel),
     dict_loop_of = (\<lambda>P keys vals cnt. OutOfFuel),
     unary_of = (\<lambda>P. OutOfFuel),
     binary_of = (\<lambda>lvl P. OutOfFuel),
     binary_loop_of = (\<lambda>lvl P left. OutOfFuel),
     assignment_of = (\<lambda>P. OutOfFuel)\<rparr>"
| "expressions kw (Suc n) =
    \<lparr>primary_of = parse_primary_body (assignment_of (expressions kw n))
                    (list_loop_of (expressions kw n)) (dict_loop_of (expressions kw n)),
     list_loop_of = expression_list_loop_body (assignment_of (expressions kw n))
                      (list_loop_of (expressions kw n)),
     dict_loop_of = dictionary_loop_body (assignment_of (expressions kw n))
                      (dict_loop_of (expressions kw n)),
     unary_of = parse_unary_body kw (unary_of (expressions kw n)) (primary_of (expressions kw n)),
     binary_of = parse_binary_body (unary_of (expressions kw n)) (binary_of (expressions kw n))
                   (binary_loop_of (expressions kw n)),
     binary_loop_of = binary_loop_body kw (unary_of (expressions kw n))
                        (binary_of (expressions kw n)) (binary_loop_of (expressions kw n)),
     assignment_of = parse_assignment_body (binary_of (expressions kw n))\<rparr>"

definition parse_primary :: "TokenType \<Rightarrow> nat \<Rightarrow> node_parser" where
  "parse_primary kw n = primary_of (expressions kw n)"

definition expression_list_loop :: "TokenType \<Rightarrow> nat \<Rightarrow> list_loop" where
  "expression_list_loop kw n = list_loop_of (expressions kw n)"

definition dictionary_loop :: "TokenType \<Rightarrow> nat \<Rightarrow> dict_loop" where
  "dictionary_loop kw n = dict_loop_of (expressions kw n)"

definition parse_unary :: "TokenType \<Rightarrow> nat \<Rightarrow> node_parser" where
  "parse_unary kw n = unary_of (expressions kw n)"

definition parse_binary :: "TokenType \<Rightarrow> nat \<Rightarrow> level \<Rightarrow> node_parser" where
  "parse_binary kw n = binary_of (expressions kw n)"

definition binary_loop ::
  "TokenType \<Rightarrow> nat \<Rightarrow> level \<Rightarrow> Parser \<Rightarrow> ASTNode \<Rightarrow> (ASTNode option \<times> Parser) outcome" where
  "binary_loop kw n = binary_loop_of (expressions kw n)"

definition parse_assignment :: "TokenType \<Rightarrow> nat \<Rightarrow> node_parser" where
  "parse_assignment kw n = assignment_of (expressions kw n)"

definition parse_expression :: "TokenType \<Rightarrow> nat \<Rightarrow> node_parser" where
  "parse_expression kw n = parse_assignment kw n"

abbreviation parse_multiplicative :: "TokenType \<Rightarrow> nat \<Rightarrow> node_parser" where
  "parse_multiplicative kw n \<equiv> parse_binary kw n Multiplicative"

abbreviation parse_additive :: "TokenType \<Rightarrow> nat \<Rightarrow> node_parser" where
  "parse_additive kw n \<equiv> parse_binary kw n Additive"

abbreviation parse_comparison :: "TokenType \<Rightarrow> nat \<Rightarrow> node_parser" where
  "parse_comparison kw n \<equiv> parse_binary kw n Comparison"

abbreviation parse_logical_and :: "TokenType \<Rightarrow> nat \<Rightarrow> node_parser" where
  "parse_logical_and kw n \<equiv> parse_binary kw n Logical_and"

abbreviation parse_logical_or :: "TokenType \<Rightarrow> nat \<Rightarrow> node_parser" where
  "parse_logical_or kw n \<equiv> parse_binary kw n Logical_or"

lemma expressions_0 [simp]:
  "parse_primary kw 0 P = OutOfFuel"
  "expression_list_loop kw 0 closer m1 m2 P elems cnt = OutOfFuel"
  "dictionary_loop kw 0 P keys vals cnt = OutOfFuel"
  "parse_unary kw 0 P = OutOfFuel"
  "parse_binary kw 0 lvl P = OutOfFuel"
  "binary_loop kw 0 lvl P left = OutOfFuel"
  "parse_assignment kw 0 P = OutOfFuel"
  "parse_expression kw 0 P = OutOfFuel"
  by (simp_all add: parse_primary_def expression_list_loop_def dictionary_loop_def
        parse_unary_def parse_binary_def binary_loop_def parse_assignment_def
        parse_expression_def)

lemma expressions_Suc:
  "parse_primary kw (Suc n) =
     parse_primary_body (parse_expression kw n) (expression_list_loop kw n) (dictionary_loop kw n)"
  "expression_list_loop kw (Suc n) =
     expression_list_loop_body (parse_expression kw n) (expression_list_loop kw n)"
  "dictionary_loop kw (Suc n) =
     dictionary_loop_body (parse_expression kw n) (dictionary_loop kw n)"
  "parse_unary kw (Suc n) = parse_unary_body kw (parse_unary kw n) (parse_primary kw n)"
  "parse_binary kw (Suc n) =
     parse_binary_body (parse_unary kw n) (parse_binary kw n) (binary_loop kw n)"
  "binary_loop kw (Suc n) =
     binary_loop_body kw (parse_unary kw n) (parse_binary kw n) (binary_loop kw n)"
  "parse_assignment kw (Suc n) = parse_assignment_body (parse_binary kw n)"
  "parse_expression kw (Suc n) = parse_assignment_body (parse_binary kw n)"
  by (simp_all add: parse_primary_def expression_list_loop_def dictionary_loop_def
        parse_unary_def parse_binary_def binary_loop_def parse_assignment_def
        parse_expression_def fun_eq_iff)


section \<open>Statements (parser.c, lines 555-983)\<close>

lemma pm_parser_error [simp]: "pm (parser_error P m) = pm P"
  by (simp add: pm_def at_end_def parser_error_def)

lemma pm_parser_match_le: "pm (snd (parser_match P ty v)) \<le> pm P"
  by (simp add: parser_match_def pm_advance_le)

text \<open>
  Panic-mode recovery, the inner \<^verbatim>\<open>while\<close> of \<open>parse_block\<close> and \<open>parse_program\<close>:
  tokens are dropped up to the next newline or the end of input.
\<close>

function skip_to_line_end :: "Parser \<Rightarrow> Parser" where
  "skip_to_line_end P =
    (if \<not> parser_check P TOKEN_NEWLINE \<and> \<not> parser_check P TOKEN_EOF
     then skip_to_line_end (parser_advance P)
     else P)"
  by pat_completeness auto
termination
  by (relation "measure pm") (auto simp: parser_check_def pm_advance_less_type)

declare skip_to_line_end.simps [simp del]

text \<open>
  After a statement \<open>parse_block\<close> and \<open>parse_program\<close> both skip an optional
  semicolon and then an optional newline.
\<close>

definition end_of_statement :: "Parser \<Rightarrow> Parser" where
  "end_of_statement P =
    (let P2 = snd (parser_match P TOKEN_PUNCTUATION (Some '';''))
     in if parser_check P2 TOKEN_NEWLINE then parser_advance P2 else P2)"

text \<open>The \<^verbatim>\<open>while (1)\<close> of the import list of a \<open>from\<close> statement, with the local array.\<close>

function import_list_loop :: "Parser \<Rightarrow> string list \<Rightarrow> (string list \<times> Parser) outcome" where
  "import_list_loop P imports =
    (if \<not> parser_check P TOKEN_IDENTIFIER
     then Returns (imports, parser_error P ''Expected identifier in import list'')
     else case tok_value (pcurrent P) of
            None \<Rightarrow> NullDeref
          | Some import_name \<Rightarrow>
              if fst (parser_match (parser_advance P) TOKEN_PUNCTUATION (Some '',''))
              then import_list_loop
                     (snd (parser_match (parser_advance P) TOKEN_PUNCTUATION (Some '','')))
                     (imports @ [import_name])
              else Returns (imports @ [import_name],
                            snd (parser_match (parser_advance P) TOKEN_PUNCTUATION (Some '',''))))"
  by pat_completeness auto
termination
proof (relation "measure (\<lambda>(P, imports). pm P)", goal_cases)
  case 1
  show ?case by simp
next
  case (2 P names import_name)
  then have "pm (parser_advance P) < pm P"
    by (intro pm_advance_less_type) (auto simp: parser_check_def)
  with pm_parser_match_le [of "parser_advance P" TOKEN_PUNCTUATION "Some '',''"]
  show ?case by simp
qed

declare import_list_loop.simps [simp del]

text \<open>
  The condition of \<open>if\<close>, \<open>elif\<close> and \<open>while\<close>: optional parentheses around an
  expression, then an optional colon. The three places differ in the message only.
  \<open>None\<close> is the failure, on which \<open>if\<close> and \<open>while\<close> return null and the elif loop
  leaves with \<^verbatim>\<open>break\<close>.
\<close>

definition parse_condition :: "node_parser \<Rightarrow> string \<Rightarrow> node_parser" where
  "parse_condition parse_expression' msg P =
    (let (has_paren, P1) = parser_match P TOKEN_PUNCTUATION (Some ''('') in
     case parse_expression' P1 of
       OutOfFuel \<Rightarrow> OutOfFuel
     | NullDeref \<Rightarrow> NullDeref
     | UseAfterFree \<Rightarrow> UseAfterFree
     | Returns (None, P2) \<Rightarrow> Returns (None, parser_error P2 msg)
     | Returns (Some condition, P2) \<Rightarrow>
         (let (ok, P3) = (if has_paren
                          then parser_expect P2 TOKEN_PUNCTUATION (Some '')'')
                                 (''Expected '' @ [SQUOTE, CHR '')'', SQUOTE] @ '' after condition'')
                          else (True, P2))
          in if has_paren \<and> \<not> ok then Returns (None, P3)
             else Returns (Some condition, snd (parser_match P3 TOKEN_PUNCTUATION (Some '':'')))))"

text \<open>
  The body of \<open>if\<close>, \<open>elif\<close>, \<open>else\<close>, \<open>while\<close> and \<open>for\<close>: a block in braces, or one
  statement. The five places differ in the message only.
\<close>

definition parse_body_body ::
  "(Parser \<Rightarrow> (ASTNode \<times> Parser) outcome) \<Rightarrow> node_parser \<Rightarrow> string \<Rightarrow> node_parser" where
  "parse_body_body parse_block' parse_statement' msg P =
    (let (brace, P1) = parser_match P TOKEN_PUNCTUATION (Some ''{'') in
     if brace then
       (case parse_block' P1 of
          OutOfFuel \<Rightarrow> OutOfFuel
        | NullDeref \<Rightarrow> NullDeref
        | UseAfterFree \<Rightarrow> UseAfterFree
        | Returns (block, P2) \<Rightarrow>
            (let (ok, P3) = parser_expect P2 TOKEN_PUNCTUATION (Some ''}'')
                              (''Expected '' @ [SQUOTE, CHR ''}'', SQUOTE] @ '' after block'')
             in if \<not> ok then Returns (None, P3) else Returns (Some block, P3)))
     else
       (case parse_statement' P1 of
          OutOfFuel \<Rightarrow> OutOfFuel
        | NullDeref \<Rightarrow> NullDeref
        | UseAfterFree \<Rightarrow> UseAfterFree
        | Returns (None, P2) \<Rightarrow> Returns (None, parser_error P2 msg)
        | Returns (Some stmt, P2) \<Rightarrow> Returns (Some stmt, P2)))"

text \<open>The branches of \<open>parse_statement\<close>, each entered after its keyword was matched.\<close>

definition parse_var_statement :: "node_parser \<Rightarrow> node_parser" where
  "parse_var_statement parse_expression' P =
    (if \<not> parser_check P TOKEN_IDENTIFIER
     then Returns (None, parser_error P
                     (''Expected variable name after '' @ [SQUOTE] @ ''var'' @ [SQUOTE]))
     else
       (let name_token = pcurrent P;
            (eq, P2) = parser_match (parser_advance P) TOKEN_OPERATOR (Some ''='')
        in if eq then
             (case parse_expression' P2 of
                OutOfFuel \<Rightarrow> OutOfFuel
              | NullDeref \<Rightarrow> NullDeref
              | UseAfterFree \<Rightarrow> UseAfterFree
              | Returns (None, P3) \<Rightarrow>
                  Returns (None, parser_error P3
                             (''Expected expression after '' @ [SQUOTE, CHR ''='', SQUOTE]))
              | Returns (Some v, P3) \<Rightarrow>
                  (case tok_value name_token of
                     Some freed \<Rightarrow> UseAfterFree
                   | None \<Rightarrow>
                       Returns (Some (NODE_VAR_DECL None (Some v) False
                                        (tok_line name_token) (tok_column name_token)), P3)))
           else
             (case tok_value name_token of
                Some freed \<Rightarrow> UseAfterFree
              | None \<Rightarrow>
                  Returns (Some (NODE_VAR_DECL None None False
                                   (tok_line name_token) (tok_column name_token)), P2))))"

definition parse_const_statement :: "node_parser \<Rightarrow> node_parser" where
  "parse_const_statement parse_expression' P =
    (if \<not> parser_check P TOKEN_IDENTIFIER
     then Returns (None, parser_error P
                     (''Expected constant name after '' @ [SQUOTE] @ ''const'' @ [SQUOTE]))
     else
       (let name_token = pcurrent P;
            (ok, P2) = parser_expect (parser_advance P) TOKEN_OPERATOR (Some ''='')
                         (''Expected '' @ [SQUOTE, CHR ''='', SQUOTE] @ '' after constant name'')
        in if \<not> ok then Returns (None, P2)
           else
             (case parse_expression' P2 of
                OutOfFuel \<Rightarrow> OutOfFuel
              | NullDeref \<Rightarrow> NullDeref
              | UseAfterFree \<Rightarrow> UseAfterFree
              | Returns (None, P3) \<Rightarrow>
                  Returns (None, parser_error P3
                             (''Expected expression after '' @ [SQUOTE, CHR ''='', SQUOTE]))
              | Returns (Some v, P3) \<Rightarrow>
                  (case tok_value name_token of
                     Some freed \<Rightarrow> UseAfterFree
                   | None \<Rightarrow>
                       Returns (Some (NODE_VAR_DECL None (Some v) True
                                        (tok_line name_token) (tok_column name_token)), P3)))))"

definition parse_return_statement :: "node_parser \<Rightarrow> node_parser" where
  "parse_return_statement parse_expression' P =
    (if \<not> (parser_check P TOKEN_NEWLINE \<or> parser_check P TOKEN_EOF \<or>
            (parser_check P TOKEN_PUNCTUATION \<and>
             parser_check_value P TOKEN_PUNCTUATION (Some ''}'')))
     then
       (case parse_expression' P of
          OutOfFuel \<Rightarrow> OutOfFuel
        | NullDeref \<Rightarrow> NullDeref
        | UseAfterFree \<Rightarrow> UseAfterFree
        | Returns (v, P1) \<Rightarrow>
            Returns (Some (NODE_RETURN_STMT v (tok_line (pcurrent P1)) (tok_column (pcurrent P1))),
                     P1))
     else Returns (Some (NODE_RETURN_STMT None (tok_line (pcurrent P)) (tok_column (pcurrent P))),
                   P))"

text \<open>
  The elif nodes are chained in the local \<open>elif_branches\<close>. They never reach the if
  node: it is created with an empty chain, and attaching calls \<open>add_next_statement\<close>
  with that null chain as the node to extend, which does nothing.
\<close>

definition parse_if_statement ::
  "node_parser \<Rightarrow> (string \<Rightarrow> node_parser)
    \<Rightarrow> (Parser \<Rightarrow> ASTNode list \<Rightarrow> (ASTNode list \<times> Parser) outcome) \<Rightarrow> node_parser" where
  "parse_if_statement parse_expression' parse_body' elif_loop' P =
    (case parse_condition parse_expression'
            (''Expected condition after '' @ [SQUOTE] @ ''if'' @ [SQUOTE]) P of
       OutOfFuel \<Rightarrow> OutOfFuel
     | NullDeref \<Rightarrow> NullDeref
     | UseAfterFree \<Rightarrow> UseAfterFree
     | Returns (None, P1) \<Rightarrow> Returns (None, P1)
     | Returns (Some condition, P1) \<Rightarrow>
    (case parse_body' (''Expected statement after '' @ [SQUOTE] @ ''if'' @ [SQUOTE] @ '' condition'') P1 of
       OutOfFuel \<Rightarrow> OutOfFuel
     | NullDeref \<Rightarrow> NullDeref
     | UseAfterFree \<Rightarrow> UseAfterFree
     | Returns (None, P2) \<Rightarrow> Returns (None, P2)
     | Returns (Some then_branch, P2) \<Rightarrow>
    (case elif_loop' P2 [] of
       OutOfFuel \<Rightarrow> OutOfFuel
     | NullDeref \<Rightarrow> NullDeref
     | UseAfterFree \<Rightarrow> UseAfterFree
     | Returns (elif_branches, P3) \<Rightarrow>
         (let (has_else, P4) = parser_match P3 TOKEN_ELSE None in
          if has_else then
            (case parse_body' (''Expected statement after '' @ [SQUOTE] @ ''else'' @ [SQUOTE])
                    (snd (parser_match P4 TOKEN_PUNCTUATION (Some '':''))) of
               OutOfFuel \<Rightarrow> OutOfFuel
             | NullDeref \<Rightarrow> NullDeref
             | UseAfterFree \<Rightarrow> UseAfterFree
             | Returns (None, P5) \<Rightarrow> Returns (None, P5)
             | Returns (Some else_branch, P5) \<Rightarrow>
                 Returns (Some (NODE_IF_STMT condition then_branch (Some else_branch) []
                                  (tok_line (pcurrent P5)) (tok_column (pcurrent P5))), P5))
          else Returns (Some (NODE_IF_STMT condition then_branch None []
                                (tok_line (pcurrent P4)) (tok_column (pcurrent P4))), P4)))))"

definition parse_while_statement :: "node_parser \<Rightarrow> (string \<Rightarrow> node_parser) \<Rightarrow> node_parser" where
  "parse_while_statement parse_expression' parse_body' P =
    (case parse_condition parse_expression'
            (''Expected condition after '' @ [SQUOTE] @ ''while'' @ [SQUOTE]) P of
       OutOfFuel \<Rightarrow> OutOfFuel
     | NullDeref \<Rightarrow> NullDeref
     | UseAfterFree \<Rightarrow> UseAfterFree
     | Returns (None, P1) \<Rightarrow> Returns (None, P1)
     | Returns (Some condition, P1) \<Rightarrow>
    (case parse_body' (''Expected statement after '' @ [SQUOTE] @ ''while'' @ [SQUOTE] @ '' condition'') P1 of
       OutOfFuel \<Rightarrow> OutOfFuel
     | NullDeref \<Rightarrow> NullDeref
     | UseAfterFree \<Rightarrow> UseAfterFree
     | Returns (None, P2) \<Rightarrow> Returns (None, P2)
     | Returns (Some body, P2) \<Rightarrow>
         Returns (Some (NODE_WHILE_STMT condition body
                          (tok_line (pcurrent P2)) (tok_column (pcurrent P2))), P2)))"

definition parse_for_statement :: "node_parser \<Rightarrow> (string \<Rightarrow> node_parser) \<Rightarrow> node_parser" where
  "parse_for_statement parse_expression' parse_body' P =
    (if \<not> parser_check P TOKEN_IDENTIFIER
     then Returns (None, parser_error P
                     (''Expected iterator variable after '' @ [SQUOTE] @ ''for'' @ [SQUOTE]))
     else
       (let iterator_token = pcurrent P;
            (ok, P2) = parser_expect (parser_advance P) TOKEN_IN None
                         (''Expected '' @ [SQUOTE] @ ''in'' @ [SQUOTE] @ '' after iterator variable'')
        in if \<not> ok then Returns (None, P2)
           else
             (case parse_expression' P2 of
                OutOfFuel \<Rightarrow> OutOfFuel
              | NullDeref \<Rightarrow> NullDeref
              | UseAfterFree \<Rightarrow> UseAfterFree
              | Returns (None, P3) \<Rightarrow>
                  Returns (None, parser_error P3
                             (''Expected iterable expression after '' @ [SQUOTE] @ ''in'' @ [SQUOTE]))
              | Returns (Some iterable, P3) \<Rightarrow>
                  (case parse_body' (''Expected statement after '' @ [SQUOTE] @ ''for'' @ [SQUOTE] @ '' header'')
                          (snd (parser_match P3 TOKEN_PUNCTUATION (Some '':''))) of
                     OutOfFuel \<Rightarrow> OutOfFuel
                   | NullDeref \<Rightarrow> NullDeref
                   | UseAfterFree \<Rightarrow> UseAfterFree
                   | Returns (None, P4) \<Rightarrow> Returns (None, P4)
                   | Returns (Some body, P4) \<Rightarrow>
                       (case tok_value iterator_token of
                          Some freed \<Rightarrow> UseAfterFree
                        | None \<Rightarrow>
                            Returns (Some (NODE_FOR_STMT None iterable body
                                             (tok_line (pcurrent P4)) (tok_column (pcurrent P4))),
                                     P4))))))"

definition parse_from_import_statement :: node_parser where
  "parse_from_import_statement P =
    (if \<not> parser_check P TOKEN_IDENTIFIER
     then Returns (None, parser_error P
                     (''Expected module name after '' @ [SQUOTE] @ ''from'' @ [SQUOTE]))
     else
       (let module_token = pcurrent P;
            (ok, P2) = parser_expect (parser_advance P) TOKEN_USING None
                         (''Expected '' @ [SQUOTE] @ ''using'' @ [SQUOTE] @ '' after module name'')
        in if \<not> ok then Returns (None, P2)
           else
             (let (star, P3) = parser_match P2 TOKEN_OPERATOR (Some ''*'') in
              if star
              then
                (case tok_value module_token of
                   Some freed \<Rightarrow> UseAfterFree
                 | None \<Rightarrow>
                     Returns (Some (NODE_FROM_IMPORT None [] 0 True
                                      (tok_line (pcurrent P3)) (tok_column (pcurrent P3))), P3))
              else
                (case import_list_loop P3 [] of
                   OutOfFuel \<Rightarrow> OutOfFuel
                 | NullDeref \<Rightarrow> NullDeref
                 | UseAfterFree \<Rightarrow> UseAfterFree
                 | Returns (imports, P4) \<Rightarrow>
                     (case tok_value module_token of
                        Some freed \<Rightarrow> UseAfterFree
                      | None \<Rightarrow>
                          Returns (Some (NODE_FROM_IMPORT None imports (length imports) False
                                           (tok_line (pcurrent P4)) (tok_column (pcurrent P4))),
                                   P4))))))"

definition parse_statement_body ::
  "node_parser \<Rightarrow> (string \<Rightarrow> node_parser)
    \<Rightarrow> (Parser \<Rightarrow> ASTNode list \<Rightarrow> (ASTNode list \<times> Parser) outcome) \<Rightarrow> node_parser" where
  "parse_statement_body parse_expression' parse_body' elif_loop' P =
    (let (is_var, P1) = parser_match P TOKEN_VAR None in
     if is_var then parse_var_statement parse_expression' P1 else
     let (is_const, P2) = parser_match P1 TOKEN_CONST None in
     if is_const then parse_const_statement parse_expression' P2 else
     let (is_return, P3) = parser_match P2 TOKEN_RETURN None in
     if is_return then parse_return_statement parse_expression' P3 else
     let (is_break, P4) = parser_match P3 TOKEN_BREAK None in
     if is_break
     then Returns (Some (NODE_BREAK_STMT (tok_line (pcurrent P4)) (tok_column (pcurrent P4))), P4) else
     let (is_continue, P5) = parser_match P4 TOKEN_CONTINUE None in
     if is_continue
     then Returns (Some (NODE_CONTINUE_STMT (tok_line (pcurrent P5)) (tok_column (pcurrent P5))), P5) else
     let (is_if, P6) = parser_match P5 TOKEN_IF None in
     if is_if then parse_if_statement parse_expression' parse_body' elif_loop' P6 else
     let (is_while, P7) = parser_match P6 TOKEN_WHILE None in
     if is_while then parse_while_statement parse_expression' parse_body' P7 else
     let (is_for, P8) = parser_match P7 TOKEN_FOR None in
     if is_for then parse_for_statement parse_expression' parse_body' P8 else
     let (is_from, P9) = parser_match P8 TOKEN_FROM None in
     if is_from then parse_from_import_statement P9 else
     (case parse_expression' P9 of
        OutOfFuel \<Rightarrow> OutOfFuel
      | NullDeref \<Rightarrow> NullDeref
      | UseAfterFree \<Rightarrow> UseAfterFree
      | Returns (None, P10) \<Rightarrow> Returns (None, parser_error P10 ''Expected statement'')
      | Returns (Some expr, P10) \<Rightarrow>
          Returns (Some (NODE_EXPR_STMT expr (tok_line (pcurrent P10)) (tok_column (pcurrent P10))),
                   P10)))"

text \<open>The \<^verbatim>\<open>while\<close> over elif clauses in the if branch, with the local \<open>elif_branches\<close>.\<close>

definition elif_loop_body ::
  "node_parser \<Rightarrow> (string \<Rightarrow> node_parser)
    \<Rightarrow> (Parser \<Rightarrow> ASTNode list \<Rightarrow> (ASTNode list \<times> Parser) outcome)
    \<Rightarrow> Parser \<Rightarrow> ASTNode list \<Rightarrow> (ASTNode list \<times> Parser) outcome" where
  "elif_loop_body parse_expression' parse_body' elif_loop' P elif_branches =
    (let (is_elif, P1) = parser_match P TOKEN_ELIF None in
     if \<not> is_elif then Returns (elif_branches, P1)
     else
       (case parse_condition parse_expression'
               (''Expected condition after '' @ [SQUOTE] @ ''elif'' @ [SQUOTE]) P1 of
          OutOfFuel \<Rightarrow> OutOfFuel
        | NullDeref \<Rightarrow> NullDeref
        | UseAfterFree \<Rightarrow> UseAfterFree
        | Returns (None, P2) \<Rightarrow> Returns (elif_branches, P2)
        | Returns (Some elif_condition, P2) \<Rightarrow>
            (case parse_body' (''Expected statement after '' @ [SQUOTE] @ ''elif'' @ [SQUOTE] @ '' condition'') P2 of
               OutOfFuel \<Rightarrow> OutOfFuel
             | NullDeref \<Rightarrow> NullDeref
             | UseAfterFree \<Rightarrow> UseAfterFree
             | Returns (None, P3) \<Rightarrow> Returns (elif_branches, P3)
             | Returns (Some elif_then, P3) \<Rightarrow>
                 elif_loop' P3
                   (set_next_of_head elif_branches
                      (NODE_ELIF_STMT elif_condition elif_then
                         (tok_line (pcurrent P3)) (tok_column (pcurrent P3)))))))"

text \<open>
  The \<^verbatim>\<open>while\<close> of \<open>parse_block\<close> with the local list of statements (\<open>last_stmt\<close>
  tracks its end, so a statement is appended), and \<open>parse_block\<close> around it.
\<close>

definition block_loop_body ::
  "node_parser \<Rightarrow> (Parser \<Rightarrow> ASTNode list \<Rightarrow> (ASTNode list \<times> Parser) outcome)
    \<Rightarrow> Parser \<Rightarrow> ASTNode list \<Rightarrow> (ASTNode list \<times> Parser) outcome" where
  "block_loop_body parse_statement' block_loop' P statements =
    (if parser_check P TOKEN_PUNCTUATION \<and> parser_check_value P TOKEN_PUNCTUATION (Some ''}'')
     then Returns (statements, P)
     else if parser_check P TOKEN_NEWLINE then block_loop' (parser_advance P) statements
     else if parser_check P TOKEN_EOF
     then Returns (statements, parser_error P ''Unexpected end of file in block'')
     else
       (case parse_statement' P of
          OutOfFuel \<Rightarrow> OutOfFuel
        | NullDeref \<Rightarrow> NullDeref
        | UseAfterFree \<Rightarrow> UseAfterFree
        | Returns (None, P1) \<Rightarrow> block_loop' (skip_to_line_end P1) statements
        | Returns (Some stmt, P1) \<Rightarrow> block_loop' (end_of_statement P1) (statements @ [stmt])))"

definition parse_block_body ::
  "(Parser \<Rightarrow> ASTNode list \<Rightarrow> (ASTNode list \<times> Parser) outcome)
    \<Rightarrow> Parser \<Rightarrow> (ASTNode \<times> Parser) outcome" where
  "parse_block_body block_loop' P =
    (case block_loop' P [] of
       OutOfFuel \<Rightarrow> OutOfFuel
     | NullDeref \<Rightarrow> NullDeref
     | UseAfterFree \<Rightarrow> UseAfterFree
     | Returns (statements, P1) \<Rightarrow>
         Returns (NODE_BLOCK statements (tok_line (pcurrent P1)) (tok_column (pcurrent P1)), P1))"

record statement_parsers =
  statement_of :: node_parser
  body_of :: "string \<Rightarrow> node_parser"
  elif_loop_of :: "Parser \<Rightarrow> ASTNode list \<Rightarrow> (ASTNode list \<times> Parser) outcome"
  block_loop_of :: "Parser \<Rightarrow> ASTNode list \<Rightarrow> (ASTNode list \<times> Parser) outcome"
  block_of :: "Parser \<Rightarrow> (ASTNode \<times> Parser) outcome"

primrec statement_level :: "TokenType \<Rightarrow> nat \<Rightarrow> statement_parsers" where
  "statement_level kw 0 =
    \<lparr>statement_of = (\<lambda>P. OutOfFuel),
     body_of = (\<lambda>msg P. OutOfFuel),
     elif_loop_of = (\<lambda>P elif_branches. OutOfFuel),
     block_loop_of = (\<lambda>P stmts. OutOfFuel),
     block_of = (\<lambda>P. OutOfFuel)\<rparr>"
| "statement_level kw (Suc n) =
    \<lparr>statement_of = parse_statement_body (parse_expression kw n) (body_of (statement_level kw n))
                      (elif_loop_of (statement_level kw n)),
     body_of = parse_body_body (block_of (statement_level kw n)) (statement_of (statement_level kw n)),
     elif_loop_of = elif_loop_body (parse_expression kw n) (body_of (statement_level kw n))
                      (elif_loop_of (statement_level kw n)),
     block_loop_of = block_loop_body (statement_of (statement_level kw n))
                       (block_loop_of (statement_level kw n)),
     block_of = parse_block_body (block_loop_of (statement_level kw n))\<rparr>"

definition parse_statement :: "TokenType \<Rightarrow> nat \<Rightarrow> node_parser" where
  "parse_statement kw n = statement_of (statement_level kw n)"

definition parse_body :: "TokenType \<Rightarrow> nat \<Rightarrow> string \<Rightarrow> node_parser" where
  "parse_body kw n = body_of (statement_level kw n)"

definition elif_loop ::
  "TokenType \<Rightarrow> nat \<Rightarrow> Parser \<Rightarrow> ASTNode list \<Rightarrow> (ASTNode list \<times> Parser) outcome" where
  "elif_loop kw n = elif_loop_of (statement_level kw n)"

definition block_loop ::
  "TokenType \<Rightarrow> nat \<Rightarrow> Parser \<Rightarrow> ASTNode list \<Rightarrow> (ASTNode list \<times> Parser) outcome" where
  "block_loop kw n = block_loop_of (statement_level kw n)"

definition parse_block :: "TokenType \<Rightarrow> nat \<Rightarrow> Parser \<Rightarrow> (ASTNode \<times> Parser) outcome" where
  "parse_block kw n = block_of (statement_level kw n)"

lemma statements_0 [simp]:
  "parse_statement kw 0 P = OutOfFuel"
  "parse_body kw 0 msg P = OutOfFuel"
  "elif_loop kw 0 P chain = OutOfFuel"
  "block_loop kw 0 P stmts = OutOfFuel"
  "parse_block kw 0 P = OutOfFuel"
  by (simp_all add: parse_statement_def parse_body_def elif_loop_def block_loop_def
        parse_block_def)

lemma statements_Suc:
  "parse_statement kw (Suc n) =
     parse_statement_body (parse_expression kw n) (parse_body kw n) (elif_loop kw n)"
  "parse_body kw (Suc n) = parse_body_body (parse_block kw n) (parse_statement kw n)"
  "elif_loop kw (Suc n) = elif_loop_body (parse_expression kw n) (parse_body kw n) (elif_loop kw n)"
  "block_loop kw (Suc n) = block_loop_body (parse_statement kw n) (block_loop kw n)"
  "parse_block kw (Suc n) = parse_block_body (block_loop kw n)"
  by (simp_all add: parse_statement_def parse_body_def elif_loop_def block_loop_def
        parse_block_def)

section \<open>Programs (parser.c, lines 943-1019)\<close>

text \<open>The \<^verbatim>\<open>while\<close> of \<open>parse_program\<close>, with the local list of statements.\<close>

primrec program_loop ::
  "TokenType \<Rightarrow> nat \<Rightarrow> Parser \<Rightarrow> ASTNode list \<Rightarrow> (ASTNode list \<times> Parser) outcome" where
  "program_loop kw 0 P statements = OutOfFuel"
| "program_loop kw (Suc n) P statements =
    (if parser_check P TOKEN_EOF then Returns (statements, P)
     else if parser_check P TOKEN_NEWLINE then program_loop kw n (parser_advance P) statements
     else
       (case parse_statement kw n P of
          OutOfFuel \<Rightarrow> OutOfFuel
        | NullDeref \<Rightarrow> NullDeref
        | UseAfterFree \<Rightarrow> UseAfterFree
        | Returns (None, P1) \<Rightarrow> program_loop kw n (skip_to_line_end P1) statements
        | Returns (Some stmt, P1) \<Rightarrow> program_loop kw n (end_of_statement P1) (statements @ [stmt])))"

definition parse_program :: "TokenType \<Rightarrow> nat \<Rightarrow> Parser \<Rightarrow> (ASTNode \<times> Parser) outcome" where
  "parse_program kw n P =
    (case program_loop kw n P [] of
       OutOfFuel \<Rightarrow> OutOfFuel
     | NullDeref \<Rightarrow> NullDeref
     | UseAfterFree \<Rightarrow> UseAfterFree
     | Returns (statements, P1) \<Rightarrow> Returns (NODE_PROGRAM statements, P1))"

text \<open>
  \<open>parse_source\<close>: the result is the tree, or \<open>None\<close> for the null pointer returned
  when the parser's error flag is set. The lexer's own flag is not consulted.
\<close>

definition parse_source :: "TokenType \<Rightarrow> nat \<Rightarrow> string \<Rightarrow> ASTNode option outcome" where
  "parse_source kw n src =
    (case parse_program kw n (parser_create (lexer_create src)) of
       OutOfFuel \<Rightarrow> OutOfFuel
     | NullDeref \<Rightarrow> NullDeref
     | UseAfterFree \<Rightarrow> UseAfterFree
     | Returns (ast, P1) \<Rightarrow> Returns (if p_has_error P1 then None else Some ast))"

section \<open>Facts about the parser\<close>

subsection \<open>The parser that \<open>parser_create\<close> makes stands at the end of input\<close>

lemma parser_create_current:
  "tok_type (pcurrent (parser_create (lexer_create src))) = TOKEN_EOF"
  by (simp add: parser_create_def lexer_create_def lexer_current_def zero_token_def)

lemma parser_create_no_error:
  "\<not> p_has_error (parser_create (lexer_create src))"
  by (simp add: parser_create_def)

lemma program_loop_at_EOF:
  "tok_type (pcurrent P) = TOKEN_EOF \<Longrightarrow> program_loop kw (Suc n) P stmts = Returns (stmts, P)"
  by (simp add: parser_check_def)

lemma parse_source_unprimed:
  "parse_source kw (Suc n) src = Returns (Some (NODE_PROGRAM []))"
  by (simp add: parse_source_def parse_program_def program_loop_at_EOF
        parser_create_current parser_create_no_error del: program_loop.simps)

subsection \<open>Progress of the parsing functions\<close>

text \<open>
  \<open>progress P P1\<close>: from the state \<open>P\<close> to the state \<open>P1\<close> the measure \<open>pm\<close> went
  down, or it stayed and the current token is of the same type as before. Every parsing
  function relates the state it is called in to the state it returns in this way, and
  a function that returns a node has consumed a token: the measure went down.
\<close>

definition progress :: "Parser \<Rightarrow> Parser \<Rightarrow> bool" where
  "progress P P1 =
    (pm P1 < pm P \<or> (pm P1 = pm P \<and> tok_type (pcurrent P1) = tok_type (pcurrent P)))"

lemma progress_refl [simp]: "progress P P"
  by (simp add: progress_def)




lemma pcurrent_parser_error [simp]: "pcurrent (parser_error P m) = pcurrent P"
  by (simp add: parser_error_def)

lemma progress_error_iff [simp]: "progress P (parser_error P1 m) = progress P P1"
  by (simp add: progress_def)

lemma progress_advance: "progress P (parser_advance P)"
proof (cases "at_end P")
  case False
  then show ?thesis by (simp add: progress_def pm_advance_less)
next
  case True
  show ?thesis
  proof (cases "pm (parser_advance P) < pm P")
    case True
    then show ?thesis by (simp add: progress_def)
  next
    case False
    with pm_advance_le [of P] have eq: "pm (parser_advance P) = pm P" by simp
    with True have "at_end (parser_advance P)"
      by (simp add: pm_def split: if_splits) presburger
    with True eq show ?thesis by (simp add: progress_def at_end_def)
  qed
qed





lemma snd_parser_match_progress: "progress P (snd (parser_match P ty v))"
  by (simp add: parser_match_def progress_advance)

lemma parser_expect_progress: "parser_expect P ty v m = (b, P1) \<Longrightarrow> progress P P1"
  by (auto simp: parser_expect_def split: if_splits)







lemma parse_literal_fuel [simp]: "parse_literal P \<noteq> OutOfFuel"
  by (auto simp: parse_literal_def Let_def split: if_splits option.splits)



lemma parse_identifier_fuel [simp]: "parse_identifier P \<noteq> OutOfFuel"
  by (auto simp: parse_identifier_def split: if_splits option.splits)
















text \<open>
  \<open>consumed P\<close> is what \<open>parser_advance\<close> takes off the measure in the state \<open>P\<close>; it
  lets arithmetic see that an advance never adds to the measure.
\<close>

definition consumed :: "Parser \<Rightarrow> nat" where
  "consumed P = pm P - pm (parser_advance P)"

lemma pm_advance [simp]: "pm (parser_advance P) = pm P - consumed P"
  using pm_advance_le [of P] by (simp add: consumed_def)

























subsection \<open>Progress of the statement functions\<close>








lemma import_list_loop_fuel [simp]: "import_list_loop P names \<noteq> OutOfFuel"
proof (induction P names rule: import_list_loop.induct)
  case (1 P names)
  show ?case
    using 1 by (subst import_list_loop.simps) (auto split: option.splits)
qed























subsection \<open>Running the parser on a given input\<close>

text \<open>
  The equations below unfold one call of a parsing function, with the fuel written as a
  number. With them, and with the tokens of an input, \<open>simp\<close> runs the parser on that
  input, whichever token type \<open>kw\<close> is.
\<close>


lemma parser_unfold:
  "0 < n \<Longrightarrow> parse_primary kw n P =
     parse_primary_body (parse_expression kw (n - 1)) (expression_list_loop kw (n - 1))
       (dictionary_loop kw (n - 1)) P"
  "0 < n \<Longrightarrow> expression_list_loop kw n closer m1 m2 P elems cnt =
     expression_list_loop_body (parse_expression kw (n - 1)) (expression_list_loop kw (n - 1))
       closer m1 m2 P elems cnt"
  "0 < n \<Longrightarrow> dictionary_loop kw n P keys vals cnt =
     dictionary_loop_body (parse_expression kw (n - 1)) (dictionary_loop kw (n - 1))
       P keys vals cnt"
  "0 < n \<Longrightarrow> parse_unary kw n P =
     parse_unary_body kw (parse_unary kw (n - 1)) (parse_primary kw (n - 1)) P"
  "0 < n \<Longrightarrow> parse_binary kw n lvl P =
     parse_binary_body (parse_unary kw (n - 1)) (parse_binary kw (n - 1))
       (binary_loop kw (n - 1)) lvl P"
  "0 < n \<Longrightarrow> binary_loop kw n lvl P left =
     binary_loop_body kw (parse_unary kw (n - 1)) (parse_binary kw (n - 1))
       (binary_loop kw (n - 1)) lvl P left"
  "0 < n \<Longrightarrow> parse_assignment kw n P = parse_assignment_body (parse_binary kw (n - 1)) P"
  "0 < n \<Longrightarrow> parse_expression kw n P = parse_assignment_body (parse_binary kw (n - 1)) P"
  "0 < n \<Longrightarrow> parse_statement kw n P =
     parse_statement_body (parse_expression kw (n - 1)) (parse_body kw (n - 1))
       (elif_loop kw (n - 1)) P"
  "0 < n \<Longrightarrow> parse_body kw n msg P =
     parse_body_body (parse_block kw (n - 1)) (parse_statement kw (n - 1)) msg P"
  "0 < n \<Longrightarrow> elif_loop kw n P chain =
     elif_loop_body (parse_expression kw (n - 1)) (parse_body kw (n - 1))
       (elif_loop kw (n - 1)) P chain"
  "0 < n \<Longrightarrow> block_loop kw n P stmts =
     block_loop_body (parse_statement kw (n - 1)) (block_loop kw (n - 1)) P stmts"
  "0 < n \<Longrightarrow> parse_block kw n P = parse_block_body (block_loop kw (n - 1)) P"
  by (cases n; simp add: expressions_Suc statements_Suc)+

lemma program_loop_unfold:
  "0 < n \<Longrightarrow> program_loop kw n P stmts =
    (if parser_check P TOKEN_EOF then Returns (stmts, P)
     else if parser_check P TOKEN_NEWLINE then program_loop kw (n - 1) (parser_advance P) stmts
     else
       (case parse_statement kw (n - 1) P of
          OutOfFuel \<Rightarrow> OutOfFuel
        | NullDeref \<Rightarrow> NullDeref
        | UseAfterFree \<Rightarrow> UseAfterFree
        | Returns (None, P1) \<Rightarrow> program_loop kw (n - 1) (skip_to_line_end P1) stmts
        | Returns (Some stmt, P1) \<Rightarrow>
            program_loop kw (n - 1) (end_of_statement P1) (stmts @ [stmt])))"
  by (cases n) (simp_all split: outcome.splits prod.splits option.splits)

lemma skip_to_line_end_stop:
  "parser_check P TOKEN_NEWLINE \<or> parser_check P TOKEN_EOF \<Longrightarrow> skip_to_line_end P = P"
  by (subst skip_to_line_end.simps) auto

lemma skip_to_line_end_go:
  "\<not> parser_check P TOKEN_NEWLINE \<Longrightarrow> \<not> parser_check P TOKEN_EOF \<Longrightarrow>
   skip_to_line_end P = skip_to_line_end (parser_advance P)"
  by (subst skip_to_line_end.simps) auto

lemma import_list_loop_stop:
  "\<not> parser_check P TOKEN_IDENTIFIER \<Longrightarrow>
   import_list_loop P names = Returns (names, parser_error P ''Expected identifier in import list'')"
  by (subst import_list_loop.simps) simp

lemmas parser_eval = parser_unfold program_loop_unfold parse_program_def
  parse_statement_body_def parse_var_statement_def parse_const_statement_def
  parse_return_statement_def parse_if_statement_def parse_while_statement_def
  parse_for_statement_def parse_from_import_statement_def parse_condition_def
  parse_body_body_def elif_loop_body_def block_loop_body_def parse_block_body_def
  parse_primary_body_def expression_list_loop_body_def dictionary_loop_body_def
  parse_unary_body_def parse_binary_body_def binary_loop_body_def parse_assignment_body_def
  operand_parser_def level_operators_def level_message_def assignment_operators_def
  parse_literal_def parse_identifier_def
  parser_create_def parser_advance_def parser_check_def parser_check_value_def
  parser_match_def parser_expect_def parser_error_def end_of_statement_def
  skip_to_line_end_stop skip_to_line_end_go import_list_loop_stop
  Let_def

text \<open>The tokens of the three inputs used below, as \<open>lexer_skip\<close> delivers them.\<close>

lemma var_x_token_1_fields:
  "(let t = lexer_current (lexer_skip (lexer_create ''var x = 10 + 20 * 3''))
    in (tok_type t, tok_value t, int_val t, float_val t, tok_line t, tok_column t))
   = (TOKEN_VAR, None, 0, 0, 1, 1)"
  by code_simp

lemma var_x_token_1:
  "tok_type (lexer_current (lexer_skip (lexer_create ''var x = 10 + 20 * 3''))) = TOKEN_VAR"
  "tok_value (lexer_current (lexer_skip (lexer_create ''var x = 10 + 20 * 3''))) = None"
  "int_val (lexer_current (lexer_skip (lexer_create ''var x = 10 + 20 * 3''))) = 0"
  "float_val (lexer_current (lexer_skip (lexer_create ''var x = 10 + 20 * 3''))) = 0"
  "tok_line (lexer_current (lexer_skip (lexer_create ''var x = 10 + 20 * 3''))) = 1"
  "tok_column (lexer_current (lexer_skip (lexer_create ''var x = 10 + 20 * 3''))) = 1"
  using var_x_token_1_fields by (simp_all add: Let_def)

lemma var_x_token_2_fields:
  "(let t = lexer_current (lexer_skip (lexer_skip (lexer_create ''var x = 10 + 20 * 3'')))
    in (tok_type t, tok_value t, int_val t, float_val t, tok_line t, tok_column t))
   = (TOKEN_IDENTIFIER, Some ''x'', 0, 0, 1, 5)"
  by code_simp

lemma var_x_token_2:
  "tok_type (lexer_current (lexer_skip (lexer_skip (lexer_create ''var x = 10 + 20 * 3'')))) = TOKEN_IDENTIFIER"
  "tok_value (lexer_current (lexer_skip (lexer_skip (lexer_create ''var x = 10 + 20 * 3'')))) = Some ''x''"
  "int_val (lexer_current (lexer_skip (lexer_skip (lexer_create ''var x = 10 + 20 * 3'')))) = 0"
  "float_val (lexer_current (lexer_skip (lexer_skip (lexer_create ''var x = 10 + 20 * 3'')))) = 0"
  "tok_line (lexer_current (lexer_skip (lexer_skip (lexer_create ''var x = 10 + 20 * 3'')))) = 1"
  "tok_column (lexer_current (lexer_skip (lexer_skip (lexer_create ''var x = 10 + 20 * 3'')))) = 5"
  using var_x_token_2_fields by (simp_all add: Let_def)

lemma var_x_token_3_fields:
  "(let t = lexer_current (lexer_skip (lexer_skip (lexer_skip (lexer_create ''var x = 10 + 20 * 3''))))
    in (tok_type t, tok_value t, int_val t, float_val t, tok_line t, tok_column t))
   = (TOKEN_OPERATOR, Some ''='', 0, 0, 1, 7)"
  by code_simp

lemma var_x_token_3:
  "tok_type (lexer_current (lexer_skip (lexer_skip (lexer_skip (lexer_create ''var x = 10 + 20 * 3''))))) = TOKEN_OPERATOR"
  "tok_value (lexer_current (lexer_skip (lexer_skip (lexer_skip (lexer_create ''var x = 10 + 20 * 3''))))) = Some ''=''"
  "int_val (lexer_current (lexer_skip (lexer_skip (lexer_skip (lexer_create ''var x = 10 + 20 * 3''))))) = 0"
  "float_val (lexer_current (lexer_skip (lexer_skip (lexer_skip (lexer_create ''var x = 10 + 20 * 3''))))) = 0"
  "tok_line (lexer_current (lexer_skip (lexer_skip (lexer_skip (lexer_create ''var x = 10 + 20 * 3''))))) = 1"
  "tok_column (lexer_current (lexer_skip (lexer_skip (lexer_skip (lexer_create ''var x = 10 + 20 * 3''))))) = 7"
  using var_x_token_3_fields by (simp_all add: Let_def)

lemma var_x_token_4_fields:
  "(let t = lexer_current (lexer_skip (lexer_skip (lexer_skip (lexer_skip (lexer_create ''var x = 10 + 20 * 3'')))))
    in (tok_type t, tok_value t, int_val t, float_val t, tok_line t, tok_column t))
   = (TOKEN_NUMBER_INT, Some ''10'', 10, 0, 1, 9)"
  by code_simp

lemma var_x_token_4:
  "tok_type (lexer_current (lexer_skip (lexer_skip (lexer_skip (lexer_skip (lexer_create ''var x = 10 + 20 * 3'')))))) = TOKEN_NUMBER_INT"
  "tok_value (lexer_current (lexer_skip (lexer_skip (lexer_skip (lexer_skip (lexer_create ''var x = 10 + 20 * 3'')))))) = Some ''10''"
  "int_val (lexer_current (lexer_skip (lexer_skip (lexer_skip (lexer_skip (lexer_create ''var x = 10 + 20 * 3'')))))) = 10"
  "float_val (lexer_current (lexer_skip (lexer_skip (lexer_skip (lexer_skip (lexer_create ''var x = 10 + 20 * 3'')))))) = 0"
  "tok_line (lexer_current (lexer_skip (lexer_skip (lexer_skip (lexer_skip (lexer_create ''var x = 10 + 20 * 3'')))))) = 1"
  "tok_column (lexer_current (lexer_skip (lexer_skip (lexer_skip (lexer_skip (lexer_create ''var x = 10 + 20 * 3'')))))) = 9"
  using var_x_token_4_fields by (simp_all add: Let_def)

lemma var_x_token_5_fields:
  "(let t = lexer_current (lexer_skip (lexer_skip (lexer_skip (lexer_skip (lexer_skip (lexer_create ''var x = 10 + 20 * 3''))))))
    in (tok_type t, tok_value t, int_val t, float_val t, tok_line t, tok_column t))
   = (TOKEN_OPERATOR, Some ''+'', 0, 0, 1, 12)"
  by code_simp

lemma var_x_token_5:
  "tok_type (lexer_current (lexer_skip (lexer_skip (lexer_skip (lexer_skip (lexer_skip (lexer_create ''var x = 10 + 20 * 3''))))))) = TOKEN_OPERATOR"
  "tok_value (lexer_current (lexer_skip (lexer_skip (lexer_skip (lexer_skip (lexer_skip (lexer_create ''var x = 10 + 20 * 3''))))))) = Some ''+''"
  "int_val (lexer_current (lexer_skip (lexer_skip (lexer_skip (lexer_skip (lexer_skip (lexer_create ''var x = 10 + 20 * 3''))))))) = 0"
  "float_val (lexer_current (lexer_skip (lexer_skip (lexer_skip (lexer_skip (lexer_skip (lexer_create ''var x = 10 + 20 * 3''))))))) = 0"
  "tok_line (lexer_current (lexer_skip (lexer_skip (lexer_skip (lexer_skip (lexer_skip (lexer_create ''var x = 10 + 20 * 3''))))))) = 1"
  "tok_column (lexer_current (lexer_skip (lexer_skip (lexer_skip (lexer_skip (lexer_skip (lexer_create ''var x = 10 + 20 * 3''))))))) = 12"
  using var_x_token_5_fields by (simp_all add: Let_def)

lemma var_x_token_6_fields:
  "(let t = lexer_current (lexer_skip (lexer_skip (lexer_skip (lexer_skip (lexer_skip (lexer_skip (lexer_create ''var x = 10 + 20 * 3'')))))))
    in (tok_type t, tok_value t, int_val t, float_val t, tok_line t, tok_column t))
   = (TOKEN_NUMBER_INT, Some ''20'', 20, 0, 1, 14)"
  by code_simp

lemma var_x_token_6:
  "tok_type (lexer_current (lexer_skip (lexer_skip (lexer_skip (lexer_skip (lexer_skip (lexer_skip (lexer_create ''var x = 10 + 20 * 3'')))))))) = TOKEN_NUMBER_INT"
  "tok_value (lexer_current (lexer_skip (lexer_skip (lexer_skip (lexer_skip (lexer_skip (lexer_skip (lexer_create ''var x = 10 + 20 * 3'')))))))) = Some ''20''"
  "int_val (lexer_current (lexer_skip (lexer_skip (lexer_skip (lexer_skip (lexer_skip (lexer_skip (lexer_create ''var x = 10 + 20 * 3'')))))))) = 20"
  "float_val (lexer_current (lexer_skip (lexer_skip (lexer_skip (lexer_skip (lexer_skip (lexer_skip (lexer_create ''var x = 10 + 20 * 3'')))))))) = 0"
  "tok_line (lexer_current (lexer_skip (lexer_skip (lexer_skip (lexer_skip (lexer_skip (lexer_skip (lexer_create ''var x = 10 + 20 * 3'')))))))) = 1"
  "tok_column (lexer_current (lexer_skip (lexer_skip (lexer_skip (lexer_skip (lexer_skip (lexer_skip (lexer_create ''var x = 10 + 20 * 3'')))))))) = 14"
  using var_x_token_6_fields by (simp_all add: Let_def)

lemma var_x_token_7_fields:
  "(let t = lexer_current (lexer_skip (lexer_skip (lexer_skip (lexer_skip (lexer_skip (lexer_skip (lexer_skip (lexer_create ''var x = 10 + 20 * 3''))))))))
    in (tok_type t, tok_value t, int_val t, float_val t, tok_line t, tok_column t))
   = (TOKEN_OPERATOR, Some ''*'', 0, 0, 1, 17)"
  by code_simp

lemma var_x_token_7:
  "tok_type (lexer_current (lexer_skip (lexer_skip (lexer_skip (lexer_skip (lexer_skip (lexer_skip (lexer_skip (lexer_create ''var x = 10 + 20 * 3''))))))))) = TOKEN_OPERATOR"
  "tok_value (lexer_current (lexer_skip (lexer_skip (lexer_skip (lexer_skip (lexer_skip (lexer_skip (lexer_skip (lexer_create ''var x = 10 + 20 * 3''))))))))) = Some ''*''"
  "int_val (lexer_current (lexer_skip (lexer_skip (lexer_skip (lexer_skip (lexer_skip (lexer_skip (lexer_skip (lexer_create ''var x = 10 + 20 * 3''))))))))) = 0"
  "float_val (lexer_current (lexer_skip (lexer_skip (lexer_skip (lexer_skip (lexer_skip (lexer_skip (lexer_skip (lexer_create ''var x = 10 + 20 * 3''))))))))) = 0"
  "tok_line (lexer_current (lexer_skip (lexer_skip (lexer_skip (lexer_skip (lexer_skip (lexer_skip (lexer_skip (lexer_create ''var x = 10 + 20 * 3''))))))))) = 1"
  "tok_column (lexer_current (lexer_skip (lexer_skip (lexer_skip (lexer_skip (lexer_skip (lexer_skip (lexer_skip (lexer_create ''var x = 10 + 20 * 3''))))))))) = 17"
  using var_x_token_7_fields by (simp_all add: Let_def)

lemma var_x_token_8_fields:
  "(let t = lexer_current (lexer_skip (lexer_skip (lexer_skip (lexer_skip (lexer_skip (lexer_skip (lexer_skip (lexer_skip (lexer_create ''var x = 10 + 20 * 3'')))))))))
    in (tok_type t, tok_value t, int_val t, float_val t, tok_line t, tok_column t))
   = (TOKEN_NUMBER_INT, Some ''3'', 3, 0, 1, 19)"
  by code_simp

lemma var_x_token_8:
  "tok_type (lexer_current (lexer_skip (lexer_skip (lexer_skip (lexer_skip (lexer_skip (lexer_skip (lexer_skip (lexer_skip (lexer_create ''var x = 10 + 20 * 3'')))))))))) = TOKEN_NUMBER_INT"
  "tok_value (lexer_current (lexer_skip (lexer_skip (lexer_skip (lexer_skip (lexer_skip (lexer_skip (lexer_skip (lexer_skip (lexer_create ''var x = 10 + 20 * 3'')))))))))) = Some ''3''"
  "int_val (lexer_current (lexer_skip (lexer_skip (lexer_skip (lexer_skip (lexer_skip (lexer_skip (lexer_skip (lexer_skip (lexer_create ''var x = 10 + 20 * 3'')))))))))) = 3"
  "float_val (lexer_current (lexer_skip (lexer_skip (lexer_skip (lexer_skip (lexer_skip (lexer_skip (lexer_skip (lexer_skip (lexer_create ''var x = 10 + 20 * 3'')))))))))) = 0"
  "tok_line (lexer_current (lexer_skip (lexer_skip (lexer_skip (lexer_skip (lexer_skip (lexer_skip (lexer_skip (lexer_skip (lexer_create ''var x = 10 + 20 * 3'')))))))))) = 1"
  "tok_column (lexer_current (lexer_skip (lexer_skip (lexer_skip (lexer_skip (lexer_skip (lexer_skip (lexer_skip (lexer_skip (lexer_create ''var x = 10 + 20 * 3'')))))))))) = 19"
  using var_x_token_8_fields by (simp_all add: Let_def)

lemma var_x_token_9_fields:
  "(let t = lexer_current (lexer_skip (lexer_skip (lexer_skip (lexer_skip (lexer_skip (lexer_skip (lexer_skip (lexer_skip (lexer_skip (lexer_create ''var x = 10 + 20 * 3''))))))))))
    in (tok_type t, tok_value t, int_val t, float_val t, tok_line t, tok_column t))
   = (TOKEN_EOF, None, 0, 0, 1, 19)"
  by code_simp

lemma var_x_token_9:
  "tok_type (lexer_current (lexer_skip (lexer_skip (lexer_skip (lexer_skip (lexer_skip (lexer_skip (lexer_skip (lexer_skip (lexer_skip (lexer_create ''var x = 10 + 20 * 3''))))))))))) = TOKEN_EOF"
  "tok_value (lexer_current (lexer_skip (lexer_skip (lexer_skip (lexer_skip (lexer_skip (lexer_skip (lexer_skip (lexer_skip (lexer_skip (lexer_create ''var x = 10 + 20 * 3''))))))))))) = None"
  "int_val (lexer_current (lexer_skip (lexer_skip (lexer_skip (lexer_skip (lexer_skip (lexer_skip (lexer_skip (lexer_skip (lexer_skip (lexer_create ''var x = 10 + 20 * 3''))))))))))) = 0"
  "float_val (lexer_current (lexer_skip (lexer_skip (lexer_skip (lexer_skip (lexer_skip (lexer_skip (lexer_skip (lexer_skip (lexer_skip (lexer_create ''var x = 10 + 20 * 3''))))))))))) = 0"
  "tok_line (lexer_current (lexer_skip (lexer_skip (lexer_skip (lexer_skip (lexer_skip (lexer_skip (lexer_skip (lexer_skip (lexer_skip (lexer_create ''var x = 10 + 20 * 3''))))))))))) = 1"
  "tok_column (lexer_current (lexer_skip (lexer_skip (lexer_skip (lexer_skip (lexer_skip (lexer_skip (lexer_skip (lexer_skip (lexer_skip (lexer_create ''var x = 10 + 20 * 3''))))))))))) = 19"
  using var_x_token_9_fields by (simp_all add: Let_def)

lemma from_math_token_1_fields:
  "(let t = lexer_current (lexer_skip (lexer_create ''from math using sin, cos, PI''))
    in (tok_type t, tok_value t, int_val t, float_val t, tok_line t, tok_column t))
   = (TOKEN_FROM, None, 0, 0, 1, 1)"
  by code_simp

lemma from_math_token_1:
  "tok_type (lexer_current (lexer_skip (lexer_create ''from math using sin, cos, PI''))) = TOKEN_FROM"
  "tok_value (lexer_current (lexer_skip (lexer_create ''from math using sin, cos, PI''))) = None"
  "int_val (lexer_current (lexer_skip (lexer_create ''from math using sin, cos, PI''))) = 0"
  "float_val (lexer_current (lexer_skip (lexer_create ''from math using sin, cos, PI''))) = 0"
  "tok_line (lexer_current (lexer_skip (lexer_create ''from math using sin, cos, PI''))) = 1"
  "tok_column (lexer_current (lexer_skip (lexer_create ''from math using sin, cos, PI''))) = 1"
  using from_math_token_1_fields by (simp_all add: Let_def)

lemma from_math_token_2_fields:
  "(let t = lexer_current (lexer_skip (lexer_skip (lexer_create ''from math using sin, cos, PI'')))
    in (tok_type t, tok_value t, int_val t, float_val t, tok_line t, tok_column t))
   = (TOKEN_IDENTIFIER, Some ''math'', 0, 0, 1, 6)"
  by code_simp

lemma from_math_token_2:
  "tok_type (lexer_current (lexer_skip (lexer_skip (lexer_create ''from math using sin, cos, PI'')))) = TOKEN_IDENTIFIER"
  "tok_value (lexer_current (lexer_skip (lexer_skip (lexer_create ''from math using sin, cos, PI'')))) = Some ''math''"
  "int_val (lexer_current (lexer_skip (lexer_skip (lexer_create ''from math using sin, cos, PI'')))) = 0"
  "float_val (lexer_current (lexer_skip (lexer_skip (lexer_create ''from math using sin, cos, PI'')))) = 0"
  "tok_line (lexer_current (lexer_skip (lexer_skip (lexer_create ''from math using sin, cos, PI'')))) = 1"
  "tok_column (lexer_current (lexer_skip (lexer_skip (lexer_create ''from math using sin, cos, PI'')))) = 6"
  using from_math_token_2_fields by (simp_all add: Let_def)

lemma from_math_token_3_fields:
  "(let t = lexer_current (lexer_skip (lexer_skip (lexer_skip (lexer_create ''from math using sin, cos, PI''))))
    in (tok_type t, tok_value t, int_val t, float_val t, tok_line t, tok_column t))
   = (TOKEN_USING, None, 0, 0, 1, 11)"
  by code_simp

lemma from_math_token_3:
  "tok_type (lexer_current (lexer_skip (lexer_skip (lexer_skip (lexer_create ''from math using sin, cos, PI''))))) = TOKEN_USING"
  "tok_value (lexer_current (lexer_skip (lexer_skip (lexer_skip (lexer_create ''from math using sin, cos, PI''))))) = None"
  "int_val (lexer_current (lexer_skip (lexer_skip (lexer_skip (lexer_create ''from math using sin, cos, PI''))))) = 0"
  "float_val (lexer_current (lexer_skip (lexer_skip (lexer_skip (lexer_create ''from math using sin, cos, PI''))))) = 0"
  "tok_line (lexer_current (lexer_skip (lexer_skip (lexer_skip (lexer_create ''from math using sin, cos, PI''))))) = 1"
  "tok_column (lexer_current (lexer_skip (lexer_skip (lexer_skip (lexer_create ''from math using sin, cos, PI''))))) = 11"
  using from_math_token_3_fields by (simp_all add: Let_def)

lemma malformed_number_token_1_fields:
  "(let t = lexer_current (lexer_skip (lexer_create ''1.5.2''))
    in (tok_type t, tok_value t, int_val t, float_val t, tok_line t, tok_column t))
   = (TOKEN_NUMBER_FLOAT, Some ''1.5'', 0, 3 / 2, 1, 1)"
  by code_simp

lemma malformed_number_token_1:
  "tok_type (lexer_current (lexer_skip (lexer_create ''1.5.2''))) = TOKEN_NUMBER_FLOAT"
  "tok_value (lexer_current (lexer_skip (lexer_create ''1.5.2''))) = Some ''1.5''"
  "int_val (lexer_current (lexer_skip (lexer_create ''1.5.2''))) = 0"
  "float_val (lexer_current (lexer_skip (lexer_create ''1.5.2''))) = 3 / 2"
  "tok_line (lexer_current (lexer_skip (lexer_create ''1.5.2''))) = 1"
  "tok_column (lexer_current (lexer_skip (lexer_create ''1.5.2''))) = 1"
  using malformed_number_token_1_fields by (simp_all add: Let_def)

lemma malformed_number_token_2_fields:
  "(let t = lexer_current (lexer_skip (lexer_skip (lexer_create ''1.5.2'')))
    in (tok_type t, tok_value t, int_val t, float_val t, tok_line t, tok_column t))
   = (TOKEN_NUMBER_FLOAT, Some ''.2'', 0, 1 / 5, 1, 4)"
  by code_simp

lemma malformed_number_token_2:
  "tok_type (lexer_current (lexer_skip (lexer_skip (lexer_create ''1.5.2'')))) = TOKEN_NUMBER_FLOAT"
  "tok_value (lexer_current (lexer_skip (lexer_skip (lexer_create ''1.5.2'')))) = Some ''.2''"
  "int_val (lexer_current (lexer_skip (lexer_skip (lexer_create ''1.5.2'')))) = 0"
  "float_val (lexer_current (lexer_skip (lexer_skip (lexer_create ''1.5.2'')))) = 1 / 5"
  "tok_line (lexer_current (lexer_skip (lexer_skip (lexer_create ''1.5.2'')))) = 1"
  "tok_column (lexer_current (lexer_skip (lexer_skip (lexer_create ''1.5.2'')))) = 4"
  using malformed_number_token_2_fields by (simp_all add: Let_def)

lemma malformed_number_token_3_fields:
  "(let t = lexer_current (lexer_skip (lexer_skip (lexer_skip (lexer_create ''1.5.2''))))
    in (tok_type t, tok_value t, int_val t, float_val t, tok_line t, tok_column t))
   = (TOKEN_EOF, None, 0, 0, 1, 4)"
  by code_simp

lemma malformed_number_token_3:
  "tok_type (lexer_current (lexer_skip (lexer_skip (lexer_skip (lexer_create ''1.5.2''))))) = TOKEN_EOF"
  "tok_value (lexer_current (lexer_skip (lexer_skip (lexer_skip (lexer_create ''1.5.2''))))) = None"
  "int_val (lexer_current (lexer_skip (lexer_skip (lexer_skip (lexer_create ''1.5.2''))))) = 0"
  "float_val (lexer_current (lexer_skip (lexer_skip (lexer_skip (lexer_create ''1.5.2''))))) = 0"
  "tok_line (lexer_current (lexer_skip (lexer_skip (lexer_skip (lexer_create ''1.5.2''))))) = 1"
  "tok_column (lexer_current (lexer_skip (lexer_skip (lexer_skip (lexer_create ''1.5.2''))))) = 4"
  using malformed_number_token_3_fields by (simp_all add: Let_def)

lemma malformed_number_lexer_error:
  "has_error (lexer_skip (lexer_create ''1.5.2''))"
  "has_error (lexer_skip (lexer_skip (lexer_skip (lexer_create ''1.5.2''))))"
  by code_simp+


section \<open>Claims about the parser\<close>

text \<open>
  C1 fails on the code. \<open>parser_create\<close> copies \<open>lexer_current\<close>, which before any token
  was read is the end-of-input token \<open>lexer_create\<close> stored; nothing reads the first
  token, so the loop of \<open>parse_program\<close> ends at once and \<open>parse_source\<close> returns a
  program without statements: no declaration of \<open>x\<close>, no \<open>+\<close>, no \<open>*\<close>.

  Reading the first token before \<open>parse_program\<close> does not rescue the input. The
  loop of a binary level calls \<open>parser_match\<close>, which consumes the operator, and then
  \<open>parser_advance\<close> once more: the operand after \<open>+\<close> is parsed at \<open>*\<close>, the
  declaration fails with an error at column 17, and the program is empty again
  (with 20 units of fuel or more).
\<close>

theorem C1_precedence_input_gives_empty_program:
  "parse_source kw (Suc n) ''var x = 10 + 20 * 3'' = Returns (Some (NODE_PROGRAM [])) \<and>
   (case parse_program kw (20 + j)
           (parser_advance (parser_create (lexer_create ''var x = 10 + 20 * 3''))) of
      Returns (ast, P) \<Rightarrow>
        ast = NODE_PROGRAM [] \<and> p_has_error P \<and>
        p_error_msg P = ''Expected expression after '' @ [SQUOTE, CHR ''='', SQUOTE] \<and>
        error_line P = 1 \<and> error_column P = 17
    | _ \<Rightarrow> False)"
proof -
  have "parse_source kw (Suc n) ''var x = 10 + 20 * 3'' = Returns (Some (NODE_PROGRAM []))"
    by (rule parse_source_unprimed)
  moreover have "(case parse_program kw (20 + j)
           (parser_advance (parser_create (lexer_create ''var x = 10 + 20 * 3''))) of
      Returns (ast, P) \<Rightarrow>
        ast = NODE_PROGRAM [] \<and> p_has_error P \<and>
        p_error_msg P = ''Expected expression after '' @ [SQUOTE, CHR ''='', SQUOTE] \<and>
        error_line P = 1 \<and> error_column P = 17
    | _ \<Rightarrow> False)"
    by (simp add: parser_eval var_x_token_1 var_x_token_2 var_x_token_3 var_x_token_4
          var_x_token_5 var_x_token_6 var_x_token_7 var_x_token_8 var_x_token_9 c_str_def
          del: pm_advance)
  ultimately show ?thesis by simp
qed

text \<open>
  C2 fails on the code. \<open>parse_source\<close> returns a tree for every source text, since the
  parser never reads a token (see C1): no error, lexical or syntactic, can make it
  fail. Moreover its test is \<open>parser->has_error\<close> alone; the lexer's flag is never
  consulted. So even with the first token read, a source that only has a lexical
  error passes: \<open>1.5.2\<close> makes the lexer record \<open>Invalid number format\<close>, and parses
  to two expression statements with the parser's flag unset.
\<close>

theorem C2_lexical_error_gives_a_tree:
  "parse_source kw (Suc n) src = Returns (Some (NODE_PROGRAM [])) \<and>
   has_error (snd (lexer_next (lexer_create ''1.5.2''))) \<and>
   (case parse_program kw (20 + j) (parser_advance (parser_create (lexer_create ''1.5.2''))) of
      Returns (ast, P) \<Rightarrow>
        ast = NODE_PROGRAM
                [NODE_EXPR_STMT (NODE_LITERAL (FloatVal (3 / 2)) 1 1) 1 4,
                 NODE_EXPR_STMT (NODE_LITERAL (FloatVal (1 / 5)) 1 4) 1 4] \<and>
        \<not> p_has_error P \<and> has_error (lexer P)
    | _ \<Rightarrow> False)"
proof -
  have a: "parse_source kw (Suc n) src = Returns (Some (NODE_PROGRAM []))"
    by (rule parse_source_unprimed)
  have b: "has_error (snd (lexer_next (lexer_create ''1.5.2'')))"
    by code_simp
  have c: "(case parse_program kw (20 + j) (parser_advance (parser_create (lexer_create ''1.5.2''))) of
      Returns (ast, P) \<Rightarrow>
        ast = NODE_PROGRAM
                [NODE_EXPR_STMT (NODE_LITERAL (FloatVal (3 / 2)) 1 1) 1 4,
                 NODE_EXPR_STMT (NODE_LITERAL (FloatVal (1 / 5)) 1 4) 1 4] \<and>
        \<not> p_has_error P \<and> has_error (lexer P)
    | _ \<Rightarrow> False)"
    by (simp add: parser_eval malformed_number_token_1 malformed_number_token_2
          malformed_number_token_3 malformed_number_lexer_error del: pm_advance)
  from a b c show ?thesis by simp
qed



text \<open>
  C4 fails on the code. As for C1, \<open>parse_source\<close> returns a program without
  statements: no from-import node. With the first token read, the statement is
  entered, but \<open>parser_expect\<close> only tests for \<open>using\<close> and leaves it the current
  token, so the import list finds no identifier; \<open>create_from_import_node\<close> then
  copies the module name \<open>math\<close>, whose text \<open>parser_advance\<close> has freed.
\<close>

theorem C4_import_input_gives_empty_program:
  "parse_source kw (Suc n) ''from math using sin, cos, PI'' = Returns (Some (NODE_PROGRAM [])) \<and>
   parse_program kw (20 + j)
     (parser_advance (parser_create (lexer_create ''from math using sin, cos, PI'')))
     = UseAfterFree"
proof -
  have "parse_source kw (Suc n) ''from math using sin, cos, PI''
        = Returns (Some (NODE_PROGRAM []))"
    by (rule parse_source_unprimed)
  moreover have "parse_program kw (20 + j)
     (parser_advance (parser_create (lexer_create ''from math using sin, cos, PI'')))
     = UseAfterFree"
    by (simp add: parser_eval from_math_token_1 from_math_token_2 from_math_token_3 c_str_def
          del: pm_advance)
  ultimately show ?thesis by simp
qed

end
